theory Spec2Isabelle
  imports Main "HOL-Library.Word" "HOL-Library.AList" "HOL-Library.Sublist"
begin

unbundle bit_operations_syntax

section \<open>Data model of the trigger-based watcher (watcher_trigger.go)\<close>

text \<open>
  Modelled from the spec: the declaration of the \<^verbatim>\<open>Event\<close> type is not part of
  watcher_trigger.go.  The file converts it to and from the 64-bit native flags
  (\<^verbatim>\<open>int64(f)\<close>, \<^verbatim>\<open>Event(ge)\<close>), and the specification calls it a bit set; it is
  taken as an unsigned 32-bit bit set.  Native flags are the \<^verbatim>\<open>int64\<close> of the source.
\<close>

type_synonym Event = "32 word"
type_synonym native = "64 word"

text \<open>
  Errors as values.  \<^verbatim>\<open>errAlreadyWatched\<close> and \<^verbatim>\<open>errNotWatched\<close> are the two
  sentinels the file compares against; \<^verbatim>\<open>ENOENT\<close> is the error for which
  \<^verbatim>\<open>os.IsNotExist\<close> holds; every other failure of the operating system or of the
  trigger is \<open>EOTHER\<close> with a code.
\<close>

datatype error = errAlreadyWatched | errNotWatched | ENOENT | EOTHER nat

definition IsNotExist :: "error option \<Rightarrow> bool" where
  "IsNotExist err = (err = Some ENOENT)"

text \<open>\<^verbatim>\<open>os.FileInfo\<close>, as far as the file reads it: \<^verbatim>\<open>Name()\<close> and \<^verbatim>\<open>IsDir()\<close>.\<close>

record FileInfo =
  Name :: string
  IsDir :: bool

text \<open>
  Modelled from the spec: the \<^verbatim>\<open>watched\<close> struct is declared by the platform
  files.  The specification's watch record has the path, the metadata snapshot and
  the two masks; these are the fields watcher_trigger.go reads and writes
  (\<^verbatim>\<open>w.p\<close>, \<^verbatim>\<open>w.fi\<close>, \<^verbatim>\<open>w.eDir\<close>, \<^verbatim>\<open>w.eNonDir\<close>).  The native handle is opaque
  and left out.
\<close>

record watched =
  w_p :: string
  w_fi :: FileInfo
  eDir :: Event
  eNonDir :: Event

text \<open>
  Modelled from the spec: a raw native notification is an \<^verbatim>\<open>interface{}\<close> that
  only the trigger reads.  \<^verbatim>\<open>trigger.Watched\<close> resolves it to the owning record
  and the native flags that fired, and fails when it cannot be resolved; the
  notification therefore carries the path of its record and the flags.
\<close>

record notification =
  n_path :: string
  n_flags :: native

text \<open>The \<^verbatim>\<open>event\<close> struct built by \<^verbatim>\<open>file\<close> and \<^verbatim>\<open>dir\<close>: path, mask, is-directory, payload.\<close>

record event =
  ev_p :: string
  ev_e :: Event
  ev_isdir :: bool
  ev_sys :: "notification option"

datatype mode = dir | ndir | both

text \<open>
  \<^verbatim>\<open>pthLkp\<close>, the map from path to record, as an association list: the order of the
  list is the order in which a \<^verbatim>\<open>range\<close> over the map visits the keys.
\<close>

type_synonym table = "(string \<times> watched) list"

text \<open>
  Everything watcher_trigger.go takes from outside: the platform's event constants
  and translation tables, \<^verbatim>\<open>encode\<close>, \<^verbatim>\<open>filepath.Join\<close>, the results of
  \<^verbatim>\<open>os.Stat\<close> and of reading a directory, and the results of the trigger's native
  calls.  A theorem that quantifies over \<open>env\<close> holds for every platform and for
  every outcome of these calls.  Within one run of an operation the outcome of a
  call is a function of its arguments; two runs may have different \<open>env\<close>.  The
  table \<^verbatim>\<open>pthLkp\<close> is the only state that is threaded through.
\<close>

record env =
  Create :: Event
  Remove :: Event
  Write :: Event
  Rename :: Event
  nat2not :: "(Event \<times> Event) list"
  not2nat :: "(Event \<times> Event) list"
  encode :: "Event \<Rightarrow> bool \<Rightarrow> native"
  Join :: "string \<Rightarrow> string \<Rightarrow> string"
  Stat :: "string \<Rightarrow> error + FileInfo"
  Readdir :: "string \<Rightarrow> error + FileInfo list"
  tNewWatched :: "string \<Rightarrow> FileInfo \<Rightarrow> error option"
  tWatch :: "FileInfo \<Rightarrow> watched \<Rightarrow> native \<Rightarrow> error option"
  tUnwatch :: "watched \<Rightarrow> error option"
  tStop :: "error option"
  tClose :: "error option"

text \<open>\<^verbatim>\<open>os.PathSeparator\<close> on the platforms of the build tag of the file.\<close>

definition PathSeparator :: char where
  "PathSeparator = CHR ''/''"

text \<open>\<^verbatim>\<open>not2nat[k]\<close>: a Go map read gives the zero value for a missing key.\<close>

definition n2n :: "env \<Rightarrow> Event \<Rightarrow> Event" where
  "n2n env k = (case map_of (not2nat env) k of None \<Rightarrow> 0 | Some v \<Rightarrow> v)"

section \<open>The trigger's bookkeeping hooks\<close>

text \<open>
  Modelled from the spec: \<^verbatim>\<open>NewWatched\<close>, \<^verbatim>\<open>Record\<close>, \<^verbatim>\<open>Del\<close> and \<^verbatim>\<open>Watched\<close> are
  methods of the platform's trigger, which shares \<^verbatim>\<open>pthLkp\<close> with the watcher
  (\<^verbatim>\<open>newTrigger(t.pthLkp)\<close>).  \<^verbatim>\<open>NewWatched\<close> allocates the record of a path not
  yet in the table, with empty masks; \<^verbatim>\<open>Record\<close> enters a record into the table
  under its path; \<^verbatim>\<open>Del\<close> removes the entry of the record's path; \<^verbatim>\<open>Watched\<close>
  resolves a notification to the record and the native flags, and fails with
  the not-watched condition when there is no record.
\<close>

definition NewWatched :: "env \<Rightarrow> string \<Rightarrow> FileInfo \<Rightarrow> error + watched" where
  "NewWatched env p fi =
     (case tNewWatched env p fi of
        Some err \<Rightarrow> Inl err
      | None \<Rightarrow> Inr \<lparr>w_p = p, w_fi = fi, eDir = 0, eNonDir = 0\<rparr>)"

definition Record :: "watched \<Rightarrow> table \<Rightarrow> table" where
  "Record w t = AList.update (w_p w) w t"

definition Del :: "watched \<Rightarrow> table \<Rightarrow> table" where
  "Del w t = AList.delete (w_p w) t"

definition Watched :: "notification \<Rightarrow> table \<Rightarrow> error + (watched \<times> native)" where
  "Watched n t =
     (case map_of t (n_path n) of
        None \<Rightarrow> Inl errNotWatched
      | Some w \<Rightarrow> Inr (w, n_flags n))"


section \<open>singlewatch, decode, walk\<close>

text \<open>The \<^verbatim>\<open>switch direct\<close> of \<^verbatim>\<open>singlewatch\<close>: or the mask into the fields the mode names.\<close>

definition add_mask :: "mode \<Rightarrow> Event \<Rightarrow> watched \<Rightarrow> watched" where
  "add_mask direct e w =
     (case direct of
        dir \<Rightarrow> w\<lparr>eDir := eDir w OR e\<rparr>
      | ndir \<Rightarrow> w\<lparr>eNonDir := eNonDir w OR e\<rparr>
      | both \<Rightarrow> w\<lparr>eDir := eDir w OR e, eNonDir := eNonDir w OR e\<rparr>)"

text \<open>
  \<^verbatim>\<open>singlewatch\<close>.  A record found in the table is a pointer into it, so the
  mask is merged in the table before the native call and stays merged when that
  call fails; a new record reaches the table only through \<^verbatim>\<open>Record\<close>.
\<close>

definition singlewatch ::
  "env \<Rightarrow> string \<Rightarrow> Event \<Rightarrow> mode \<Rightarrow> FileInfo \<Rightarrow> table \<Rightarrow> error option \<times> table" where
  "singlewatch env p e direct fi t =
     (case map_of t p of
        None \<Rightarrow>
          (case NewWatched env p fi of
             Inl err \<Rightarrow> (Some err, t)
           | Inr w0 \<Rightarrow>
               (let w = add_mask direct e w0 in
                case tWatch env fi w (encode env (eDir w OR eNonDir w) (IsDir fi)) of
                  Some err \<Rightarrow> (Some err, t)
                | None \<Rightarrow> (None, Record w t)))
      | Some w0 \<Rightarrow>
          (let w = add_mask direct e w0; t' = AList.update p w t in
           case tWatch env fi w (encode env (eDir w OR eNonDir w) (IsDir fi)) of
             Some err \<Rightarrow> (Some err, t')
           | None \<Rightarrow> (Some errAlreadyWatched, t')))"

text \<open>\<^verbatim>\<open>decode\<close>: one step per entry of \<^verbatim>\<open>nat2not\<close>, the result is the union.\<close>

definition decode_step :: "native \<Rightarrow> Event \<Rightarrow> Event \<times> Event \<Rightarrow> Event \<Rightarrow> Event" where
  "decode_step o' w fn e =
     (case fn of (f, n) \<Rightarrow>
        if o' AND ucast f \<noteq> 0
        then (let e1 = (if w AND f \<noteq> 0 then e OR f else e)
              in if w AND n \<noteq> 0 then e1 OR n else e1)
        else e)"

definition decode :: "env \<Rightarrow> native \<Rightarrow> Event \<Rightarrow> Event" where
  "decode env o' w = fold (decode_step o' w) (nat2not env) 0"

text \<open>
  \<^verbatim>\<open>walk\<close>: read the directory, then run the callback on each entry and stop at
  its first error.  The callback works on a state \<open>'s\<close> (the table, or the
  table and the events gathered so far).
\<close>

fun walk_loop ::
  "(FileInfo \<Rightarrow> 's \<Rightarrow> error option \<times> 's) \<Rightarrow> FileInfo list \<Rightarrow> 's \<Rightarrow> error option \<times> 's" where
  "walk_loop fn [] s = (None, s)"
| "walk_loop fn (fi # ls) s =
     (case fn fi s of
        (Some err, s') \<Rightarrow> (Some err, s')
      | (None, s') \<Rightarrow> walk_loop fn ls s')"

definition walk ::
  "env \<Rightarrow> string \<Rightarrow> (FileInfo \<Rightarrow> 's \<Rightarrow> error option \<times> 's) \<Rightarrow> 's \<Rightarrow> error option \<times> 's" where
  "walk env p fn s =
     (case Readdir env p of
        Inl err \<Rightarrow> (Some err, s)
      | Inr ls \<Rightarrow> walk_loop fn ls s)"

section \<open>singleunwatch, watch, unwatch\<close>

definition clear_mask :: "mode \<Rightarrow> watched \<Rightarrow> watched" where
  "clear_mask direct w =
     (case direct of
        dir \<Rightarrow> w\<lparr>eDir := 0\<rparr>
      | ndir \<Rightarrow> w\<lparr>eNonDir := 0\<rparr>
      | both \<Rightarrow> w\<lparr>eDir := 0, eNonDir := 0\<rparr>)"

text \<open>
  \<^verbatim>\<open>singleunwatch\<close>.  The masks are cleared through the pointer, so the table holds
  the cleared record also when the native unwatch fails.  With a mask left, the
  record is registered again through \<^verbatim>\<open>singlewatch\<close>, in mode \<^verbatim>\<open>dir\<close> unless
  \<^verbatim>\<open>eNonDir\<close> is empty.
\<close>

definition singleunwatch :: "env \<Rightarrow> string \<Rightarrow> mode \<Rightarrow> table \<Rightarrow> error option \<times> table" where
  "singleunwatch env p direct t =
     (case map_of t p of
        None \<Rightarrow> (Some errNotWatched, t)
      | Some w0 \<Rightarrow>
          (let w = clear_mask direct w0; t1 = AList.update p w t in
           case tUnwatch env w of
             Some err \<Rightarrow> (Some err, t1)
           | None \<Rightarrow>
               if eNonDir w OR eDir w \<noteq> 0
               then (let mod' = (if eNonDir w = 0 then ndir else dir) in
                     case singlewatch env p (eNonDir w OR eDir w) mod' (w_fi w) t1 of
                       (Some err, t2) \<Rightarrow>
                         if err \<noteq> errAlreadyWatched then (Some err, t2) else (None, t2)
                     | (None, t2) \<Rightarrow> (None, t2))
               else (None, Del w t1)))"

definition watch_child :: "env \<Rightarrow> string \<Rightarrow> Event \<Rightarrow> FileInfo \<Rightarrow> table \<Rightarrow> error option \<times> table" where
  "watch_child env p e fi t =
     (case singlewatch env (Join env p (Name fi)) e ndir fi t of
        (Some err, t') \<Rightarrow> if err \<noteq> errAlreadyWatched then (Some err, t') else (None, t')
      | (None, t') \<Rightarrow> (None, t'))"

definition watch :: "env \<Rightarrow> string \<Rightarrow> Event \<Rightarrow> FileInfo \<Rightarrow> table \<Rightarrow> error option \<times> table" where
  "watch env p e fi t =
     (case singlewatch env p e dir fi t of
        (err, t1) \<Rightarrow>
          if err \<noteq> None \<and> err \<noteq> Some errAlreadyWatched then (None, t1)
          else if IsDir fi then walk env p (watch_child env p e) t1
          else (None, t1))"

definition unwatch_child :: "env \<Rightarrow> string \<Rightarrow> FileInfo \<Rightarrow> table \<Rightarrow> error option \<times> table" where
  "unwatch_child env p fi t =
     (case singleunwatch env (Join env p (Name fi)) ndir t of
        (err, t') \<Rightarrow> if err \<noteq> Some errNotWatched then (err, t') else (None, t'))"

definition unwatch :: "env \<Rightarrow> string \<Rightarrow> FileInfo \<Rightarrow> table \<Rightarrow> error option \<times> table" where
  "unwatch env p fi t =
     (if IsDir fi
      then (case walk env p (unwatch_child env p) t of
              (Some err, t1) \<Rightarrow> (Some err, t1)
            | (None, t1) \<Rightarrow> singleunwatch env p dir t1)
      else singleunwatch env p dir t)"

section \<open>The public operations\<close>

definition Watch :: "env \<Rightarrow> string \<Rightarrow> Event \<Rightarrow> table \<Rightarrow> error option \<times> table" where
  "Watch env p e t =
     (case Stat env p of
        Inl err \<Rightarrow> (Some err, t)
      | Inr fi \<Rightarrow> watch env p e fi t)"

definition Unwatch :: "env \<Rightarrow> string \<Rightarrow> table \<Rightarrow> error option \<times> table" where
  "Unwatch env p t =
     (case Stat env p of
        Inl err \<Rightarrow> (Some err, t)
      | Inr fi \<Rightarrow> unwatch env p fi t)"

text \<open>
  \<^verbatim>\<open>Rewatch\<close>: the old mask is the blank parameter; the error of the unwatch and of
  the watch is assigned and dropped, the function returns nil after a successful
  stat.
\<close>

definition Rewatch :: "env \<Rightarrow> string \<Rightarrow> Event \<Rightarrow> Event \<Rightarrow> table \<Rightarrow> error option \<times> table" where
  "Rewatch env p old e t =
     (case Stat env p of
        Inl err \<Rightarrow> (Some err, t)
      | Inr fi \<Rightarrow>
          (case unwatch env p fi t of
             (None, t1) \<Rightarrow> (None, snd (watch env p e fi t1))
           | (Some err, t1) \<Rightarrow> (None, t1)))"

section \<open>Event synthesis: file, dir, process, monitor\<close>

definition file_fn :: "watched \<Rightarrow> notification \<Rightarrow> Event \<Rightarrow> event list" where
  "file_fn w n e = [\<lparr>ev_p = w_p w, ev_e = e, ev_isdir = IsDir (w_fi w), ev_sys = Some n\<rparr>]"

text \<open>
  The body of the \<^verbatim>\<open>range\<close> over the table in the rename branch of \<^verbatim>\<open>dir\<close>, for
  one key.  A key removed before the loop reaches it is not produced (Go's rule
  for maps changed during a \<^verbatim>\<open>range\<close>).  The error of \<^verbatim>\<open>singleunwatch\<close> is only
  logged.  \<open>w\<close> is the record of the directory: the guard and the mask of the
  synthesized event read its masks, the event takes its is-directory flag.
\<close>

definition rename_step ::
  "env \<Rightarrow> watched \<Rightarrow> Event \<Rightarrow> string \<Rightarrow> table \<times> event list \<Rightarrow> table \<times> event list" where
  "rename_step env w e p s =
     (case s of (t, evn) \<Rightarrow>
        if map_of t p \<noteq> None \<and> prefix (w_p w @ [PathSeparator]) p
        then (let t' = snd (singleunwatch env p both t) in
              if (eDir w OR eNonDir w) AND (n2n env (Rename env) OR Rename env) \<noteq> 0
              then (t', evn @ [\<lparr>ev_p = p,
                                ev_e = (eDir w OR eNonDir w) AND e AND NOT (Write env)
                                         AND NOT (n2n env (Write env)),
                                ev_isdir = IsDir (w_fi w), ev_sys = None\<rparr>])
              else (t', evn))
        else (t, evn))"

text \<open>
  The callback of the rescan in the write branch of \<^verbatim>\<open>dir\<close>, for one directory
  entry; the cases are those of the \<^verbatim>\<open>switch\<close>, in its order.  It always returns
  nil.
\<close>

definition rescan_child ::
  "env \<Rightarrow> watched \<Rightarrow> notification \<Rightarrow> FileInfo \<Rightarrow> table \<times> event list
     \<Rightarrow> error option \<times> (table \<times> event list)" where
  "rescan_child env w n fi s =
     (case s of (t, evn) \<Rightarrow>
        (let p = Join env (w_p w) (Name fi) in
         case singlewatch env p (eDir w) ndir fi t of
           (err, t') \<Rightarrow>
             if IsNotExist err \<and> eDir w AND Remove env \<noteq> 0
             then (None, (t', evn @ [\<lparr>ev_p = p, ev_e = Remove env,
                                      ev_isdir = IsDir fi, ev_sys = Some n\<rparr>]))
             else if err = Some errAlreadyWatched then (None, (t', evn))
             else if err \<noteq> None then (None, (t', evn))
             else if eDir w AND Create env \<noteq> 0
             then (None, (t', evn @ [\<lparr>ev_p = p, ev_e = Create env,
                                      ev_isdir = IsDir fi, ev_sys = Some n\<rparr>]))
             else (None, (t', evn))))"

text \<open>
  \<^verbatim>\<open>dir\<close>, the method (\<open>dir\<close> alone is the mode constant, and \<open>file_fn\<close> above
  is the method \<^verbatim>\<open>file\<close>).  It returns the events and the table.  \<open>w\<close> is the
  record the notification resolved to, as it was then: the first loop changes
  records whose paths are longer than \<^verbatim>\<open>w.p\<close>, and the second reads \<^verbatim>\<open>w.eDir\<close>
  and writes \<^verbatim>\<open>eNonDir\<close> fields only.
\<close>

definition dir_fn ::
  "env \<Rightarrow> watched \<Rightarrow> notification \<Rightarrow> Event \<Rightarrow> Event \<Rightarrow> table \<Rightarrow> event list \<times> table" where
  "dir_fn env w n e ge t =
     (if ge AND (n2n env (Rename env) OR n2n env (Remove env)) \<noteq> 0
      then (let evn = [\<lparr>ev_p = w_p w,
                         ev_e = e AND NOT (Write env) AND NOT (n2n env (Write env)),
                         ev_isdir = True, ev_sys = Some n\<rparr>];
                s = (if ge AND n2n env (Rename env) \<noteq> 0
                     then fold (rename_step env w e) (map fst t) (t, evn)
                     else (t, evn))
            in (snd s, Del w (fst s)))
      else if ge AND n2n env (Write env) \<noteq> 0
      then (case walk env (w_p w) (rescan_child env w n) (t, []) of
              (err, (t', evn)) \<Rightarrow> (evn, t'))
      else ([], t))"

text \<open>
  The refresh of the native registration in \<^verbatim>\<open>process\<close> (the \<^verbatim>\<open>if\<close> at the
  flags without remove and rename): stat the path again and, when that
  succeeds, register again; a record whose registration fails is deleted.
\<close>

definition refresh :: "env \<Rightarrow> watched \<Rightarrow> native \<Rightarrow> table \<Rightarrow> table" where
  "refresh env w ge t =
     (if ge AND ucast (n2n env (Remove env) OR n2n env (Rename env)) = 0
      then (case Stat env (w_p w) of
              Inl err \<Rightarrow> t
            | Inr fi \<Rightarrow>
                (case tWatch env fi w (encode env (eDir w OR eNonDir w) (IsDir fi)) of
                   Some err \<Rightarrow> Del w t
                 | None \<Rightarrow> t))
      else t)"

text \<open>
  \<^verbatim>\<open>process\<close>: resolve the notification, decode, refresh the native registration
  unless the flags say remove or rename, drop what has nothing to report, build
  the events, and delete the record on remove or rename.
\<close>

definition process :: "env \<Rightarrow> notification \<Rightarrow> table \<Rightarrow> event list \<times> table" where
  "process env n t =
     (case Watched n t of
        Inl err \<Rightarrow> ([], t)
      | Inr (w, ge) \<Rightarrow>
          (let e = decode env ge (eDir w OR eNonDir w);
               t1 = refresh env w ge t
           in if e = 0 \<and> (\<not> IsDir (w_fi w) \<or> ge AND ucast (n2n env (Write env)) = 0)
              then ([], t1)
              else (case (if IsDir (w_fi w) then dir_fn env w n e (ucast ge) t1
                          else (file_fn w n e, t1)) of
                      (evn, t2) \<Rightarrow>
                        if (ucast ge :: Event) AND (n2n env (Remove env) OR n2n env (Rename env)) \<noteq> 0
                        then (evn, Del w t2)
                        else (evn, t2))))"

text \<open>
  \<^verbatim>\<open>monitor\<close>, over the results of the successive \<^verbatim>\<open>Wait\<close> calls.  The constructors
  follow the cases of the \<^verbatim>\<open>switch\<close>: interrupted, stop, another error, a
  notification.  On stop the loop acknowledges on the channel \<^verbatim>\<open>s\<close> and returns:
  the first component of the result.  A list that ends without a stop leaves the
  loop blocked in \<^verbatim>\<open>Wait\<close>, not acknowledged.  The events are those sent on the
  channel, in order.

  \<open>locked\<close> says that another caller holds the mutex of the watcher and keeps it
  until the loop has acknowledged.  That is the situation of \<^verbatim>\<open>Close\<close> between its
  \<^verbatim>\<open>t.Lock()\<close> and its receive \<^verbatim>\<open><-t.s\<close>.  \<^verbatim>\<open>process\<close> begins with \<^verbatim>\<open>t.Lock()\<close>, so
  with the mutex held a notification stops the loop there for good: it never
  reaches the next \<^verbatim>\<open>Wait\<close> and never acknowledges.
\<close>

datatype wait = WaitEINTR | WaitStop | WaitErr error | WaitNotify notification

fun monitor ::
  "env \<Rightarrow> bool \<Rightarrow> wait list \<Rightarrow> table \<Rightarrow> event list \<Rightarrow> bool \<times> table \<times> event list" where
  "monitor env locked [] t out = (False, t, out)"
| "monitor env locked (WaitEINTR # ws) t out = monitor env locked ws t out"
| "monitor env locked (WaitStop # ws) t out = (True, t, out)"
| "monitor env locked (WaitErr err # ws) t out = monitor env locked ws t out"
| "monitor env locked (WaitNotify n # ws) t out =
     (if locked then (False, t, out)
      else (case process env n t of (evn, t') \<Rightarrow> monitor env locked ws t' (out @ evn)))"

section \<open>Close\<close>




section \<open>The table invariant and a concrete platform\<close>

text \<open>
  The table is a map: no path has two entries.  Every record is stored under its
  own path (\<^verbatim>\<open>Record\<close> enters \<open>w\<close> under \<^verbatim>\<open>w.p\<close>, \<^verbatim>\<open>Del\<close> removes the entry of
  \<^verbatim>\<open>w.p\<close>).
\<close>

definition tbl_ok :: "table \<Rightarrow> bool" where
  "tbl_ok t = (distinct (map fst t) \<and> (\<forall>(k, w) \<in> set t. w_p w = k))"



text \<open>The path \<open>p\<close> has a record whose combined mask is \<open>m\<close>.\<close>

definition merged :: "string \<Rightarrow> Event \<Rightarrow> table \<Rightarrow> bool" where
  "merged p m t = (\<exists>w'. map_of t p = Some w' \<and> eDir w' OR eNonDir w' = m)"







text \<open>
  Names for what the statements about \<^verbatim>\<open>dir\<close> and \<^verbatim>\<open>process\<close> speak of.  The four
  events are the struct literals of \<^verbatim>\<open>dir\<close>: the one for the directory itself, the
  one for a path below a renamed directory, and the two of the rescan;
  \<open>dir_mask\<close> and \<open>rename_mask\<close> are the masks of the first two, and \<open>ev_pe\<close>
  reads the path and the mask of an event.
  \<open>is_desc\<close> is the test \<^verbatim>\<open>strings.HasPrefix(p, w.p+string(os.PathSeparator))\<close>,
  \<open>descendants\<close> the keys of the table that pass it, in the order of the table,
  and \<open>rename_gate\<close> the guard \<^verbatim>\<open>(w.eDir|w.eNonDir)&(not2nat[Rename]|Rename) != 0\<close>
  on the record of the directory.  \<open>unreg\<close> is what \<^verbatim>\<open>singleunwatch(p, both)\<close>
  leaves at \<open>p\<close>: nothing when the native unwatch succeeds, the record with both
  masks cleared when it fails.
\<close>

definition dir_event :: "env \<Rightarrow> watched \<Rightarrow> Event \<Rightarrow> notification \<Rightarrow> event" where
  "dir_event env w e n =
     \<lparr>ev_p = w_p w, ev_e = e AND NOT (Write env) AND NOT (n2n env (Write env)),
      ev_isdir = True, ev_sys = Some n\<rparr>"

definition rename_event :: "env \<Rightarrow> watched \<Rightarrow> Event \<Rightarrow> string \<Rightarrow> event" where
  "rename_event env w e p =
     \<lparr>ev_p = p,
      ev_e = (eDir w OR eNonDir w) AND e AND NOT (Write env) AND NOT (n2n env (Write env)),
      ev_isdir = IsDir (w_fi w), ev_sys = None\<rparr>"

definition create_event :: "env \<Rightarrow> string \<Rightarrow> FileInfo \<Rightarrow> notification \<Rightarrow> event" where
  "create_event env p fi n = \<lparr>ev_p = p, ev_e = Create env, ev_isdir = IsDir fi, ev_sys = Some n\<rparr>"

definition remove_event :: "env \<Rightarrow> string \<Rightarrow> FileInfo \<Rightarrow> notification \<Rightarrow> event" where
  "remove_event env p fi n = \<lparr>ev_p = p, ev_e = Remove env, ev_isdir = IsDir fi, ev_sys = Some n\<rparr>"

definition ev_pe :: "event \<Rightarrow> string \<times> Event" where
  "ev_pe ev = (ev_p ev, ev_e ev)"

definition dir_mask :: "env \<Rightarrow> Event \<Rightarrow> Event" where
  "dir_mask env e = e AND NOT (Write env) AND NOT (n2n env (Write env))"

definition rename_mask :: "env \<Rightarrow> watched \<Rightarrow> Event \<Rightarrow> Event" where
  "rename_mask env w e =
     (eDir w OR eNonDir w) AND e AND NOT (Write env) AND NOT (n2n env (Write env))"

definition is_desc :: "watched \<Rightarrow> string \<Rightarrow> bool" where
  "is_desc w p = prefix (w_p w @ [PathSeparator]) p"

definition descendants :: "watched \<Rightarrow> table \<Rightarrow> string list" where
  "descendants w t = filter (is_desc w) (map fst t)"

definition rename_gate :: "env \<Rightarrow> watched \<Rightarrow> bool" where
  "rename_gate env w = ((eDir w OR eNonDir w) AND (n2n env (Rename env) OR Rename env) \<noteq> 0)"

definition unreg :: "env \<Rightarrow> table \<Rightarrow> string \<Rightarrow> watched option" where
  "unreg env t q =
     (case map_of t q of
        None \<Rightarrow> None
      | Some w0 \<Rightarrow> if tUnwatch env (clear_mask both w0) = None then None
                   else Some (clear_mask both w0))"




text \<open>
  A platform to evaluate the operations on: event constants and tables in the
  style of kqueue, a file system in which \<open>d\<close> is an empty directory and every
  other path a file, and native calls that all succeed.  The examples change
  single fields of it.  \<open>base\<close> is the last element of a path, the name that
  \<^verbatim>\<open>os.Stat\<close> reports.
\<close>

definition base :: "string \<Rightarrow> string" where
  "base p = rev (takeWhile (\<lambda>c. c \<noteq> CHR ''/'') (rev p))"

definition kq :: env where
  "kq = \<lparr>Create = 0x100, Remove = 0x200, Write = 0x400, Rename = 0x800,
          nat2not = [(2, 0x400), (0x20, 0x800), (1, 0x200), (4, 0)],
          not2nat = [(0x400, 2), (0x800, 0x20), (0x200, 1)],
          encode = (\<lambda>e d. ucast e),
          Join = (\<lambda>p n. p @ ''/'' @ n),
          Stat = (\<lambda>p. Inr \<lparr>Name = base p, IsDir = (p = ''d'')\<rparr>),
          Readdir = (\<lambda>p. Inr []),
          tNewWatched = (\<lambda>p fi. None),
          tWatch = (\<lambda>fi w m. None),
          tUnwatch = (\<lambda>w. None),
          tStop = None,
          tClose = None\<rparr>"

definition file_rec :: "string \<Rightarrow> Event \<Rightarrow> Event \<Rightarrow> watched" where
  "file_rec p ed en =
     \<lparr>w_p = p, w_fi = \<lparr>Name = base p, IsDir = False\<rparr>, eDir = ed, eNonDir = en\<rparr>"

definition dir_rec :: "string \<Rightarrow> Event \<Rightarrow> Event \<Rightarrow> watched" where
  "dir_rec p ed en =
     \<lparr>w_p = p, w_fi = \<lparr>Name = base p, IsDir = True\<rparr>, eDir = ed, eNonDir = en\<rparr>"

text \<open>Variations of the platform and tables for the examples.\<close>

definition kq_unwatch_fails :: env where
  "kq_unwatch_fails = kq\<lparr>tUnwatch := (\<lambda>w. Some (EOTHER 5))\<rparr>"

definition kq_new_fails :: env where
  "kq_new_fails = kq\<lparr>tNewWatched := (\<lambda>p fi. Some (EOTHER 13))\<rparr>"


definition kq_unreadable :: env where
  "kq_unreadable = kq\<lparr>Readdir := (\<lambda>p. Inl (EOTHER 13))\<rparr>"

definition kq_child_refused :: env where
  "kq_child_refused =
     kq\<lparr>Readdir := (\<lambda>p. Inr [\<lparr>Name = ''a'', IsDir = False\<rparr>]),
        tNewWatched := (\<lambda>p fi. if p = ''d/a'' then Some (EOTHER 13) else None)\<rparr>"


definition kq_listing :: env where
  "kq_listing = kq\<lparr>Readdir := (\<lambda>p. Inr [\<lparr>Name = ''a'', IsDir = False\<rparr>])\<rparr>"

definition fi_a :: FileInfo where
  "fi_a = \<lparr>Name = ''a'', IsDir = False\<rparr>"

definition tbl_d :: table where
  "tbl_d = [(''d'', dir_rec ''d'' 0x500 0)]"

definition tbl_da :: table where
  "tbl_da = [(''d'', dir_rec ''d'' 0x500 0),
             (''d/a'', file_rec ''d/a'' 0 0x500)]"

definition tbl_d1 :: table where
  "tbl_d1 = [(''d'', dir_rec ''d'' 0x800 0), (''d/a'', file_rec ''d/a'' 0x100 0)]"

definition tbl_d2 :: table where
  "tbl_d2 = [(''d'', dir_rec ''d'' 0x800 0), (''d/a'', file_rec ''d/a'' 0 0x800),
             (''d/b'', file_rec ''d/b'' 0 0x800)]"

definition n_rename :: notification where
  "n_rename = \<lparr>n_path = ''d'', n_flags = 0x20\<rparr>"

definition n_write :: notification where
  "n_write = \<lparr>n_path = ''d'', n_flags = 2\<rparr>"

text \<open>
  What \<^verbatim>\<open>watch\<close> and the callback of its walk accept from a registration: nil
  or \<^verbatim>\<open>errAlreadyWatched\<close>.  \<open>entry_ok\<close>: the registration of the directory
  entry \<open>fi\<close> below \<open>p\<close> can only give such a result, whatever record the native
  \<^verbatim>\<open>Watch\<close> is called with.  \<open>entry_refused\<close>: the registration of the entry fails
  with the error \<open>err\<close>, which is not the already-watched signal, in
  \<^verbatim>\<open>NewWatched\<close> or else in the native \<^verbatim>\<open>Watch\<close>.
\<close>

definition acceptable :: "error option \<Rightarrow> bool" where
  "acceptable r = (r = None \<or> r = Some errAlreadyWatched)"

definition entry_ok :: "env \<Rightarrow> string \<Rightarrow> FileInfo \<Rightarrow> bool" where
  "entry_ok env p fi =
     (acceptable (tNewWatched env (Join env p (Name fi)) fi) \<and>
      (\<forall>w m. acceptable (tWatch env fi w m)))"

definition entry_refused :: "env \<Rightarrow> string \<Rightarrow> FileInfo \<Rightarrow> error \<Rightarrow> bool" where
  "entry_refused env p fi err =
     (err \<noteq> errAlreadyWatched \<and> (\<forall>w m. tWatch env fi w m = Some err) \<and>
      (tNewWatched env (Join env p (Name fi)) fi = None \<or>
       tNewWatched env (Join env p (Name fi)) fi = Some err))"

text \<open>
  The notification \<open>n\<close> makes \<^verbatim>\<open>process\<close> rescan the directory of the record \<open>w\<close>:
  the record is a directory, and the flags have the native write flag and neither
  the rename nor the remove flag.
\<close>

definition rescans :: "env \<Rightarrow> notification \<Rightarrow> watched \<Rightarrow> bool" where
  "rescans env n w =
     (IsDir (w_fi w) \<and>
      (ucast (n_flags n) :: Event) AND (n2n env (Rename env) OR n2n env (Remove env)) = 0 \<and>
      (ucast (n_flags n) :: Event) AND n2n env (Write env) \<noteq> 0)"

text \<open>
  The entries of a listing that the rescan meets for the first time: those whose
  path (\<open>cp\<close> gives the path of an entry) is not among \<open>seen\<close>, the paths that have
  a record, each path once.
\<close>

fun fresh_entries :: "(FileInfo \<Rightarrow> string) \<Rightarrow> string list \<Rightarrow> FileInfo list \<Rightarrow> FileInfo list" where
  "fresh_entries cp seen [] = []"
| "fresh_entries cp seen (fi # ls) =
     (if cp fi \<in> set seen then fresh_entries cp seen ls
      else fi # fresh_entries cp (cp fi # seen) ls)"



text \<open>
  More variations for the examples: a directory with the two entries \<open>a\<close> and
  \<open>b\<close>; a platform on which the file \<open>d/a\<close> has gone when it is registered
  again; one on which the native unwatch of \<open>d/a\<close> fails; a directory watched
  for Create, Remove and Write with its entry \<open>a\<close> expanded; a sub-directory
  \<open>d/s\<close> that was registered as an entry of \<open>d\<close>; and the directory \<open>d\<close> with
  an entry that is also watched on its own.
\<close>

definition fi_b :: FileInfo where
  "fi_b = \<lparr>Name = ''b'', IsDir = False\<rparr>"

definition kq_ab :: env where
  "kq_ab = kq\<lparr>Readdir := (\<lambda>p. Inr [\<lparr>Name = ''a'', IsDir = False\<rparr>, \<lparr>Name = ''b'', IsDir = False\<rparr>])\<rparr>"

definition kq_gone :: env where
  "kq_gone = kq_listing\<lparr>tWatch := (\<lambda>fi w m. if w_p w = ''d/a'' then Some ENOENT else None)\<rparr>"

definition kq_a_fails :: env where
  "kq_a_fails = kq_listing\<lparr>tUnwatch := (\<lambda>w. if w_p w = ''d/a'' then Some (EOTHER 5) else None)\<rparr>"

definition tbl_rm :: table where
  "tbl_rm = [(''d'', dir_rec ''d'' 0x700 0), (''d/a'', file_rec ''d/a'' 0 0x700)]"



definition tbl_own :: table where
  "tbl_own = [(''d'', dir_rec ''d'' 0x500 0), (''d/a'', file_rec ''d/a'' 0x100 0x500)]"

section \<open>Basic facts about the table operations\<close>

lemma tbl_ok_lookup: "tbl_ok t \<Longrightarrow> map_of t k = Some w \<Longrightarrow> w_p w = k"
  by (auto simp: tbl_ok_def dest: map_of_SomeD)

lemma tbl_ok_update: "tbl_ok t \<Longrightarrow> w_p w = k \<Longrightarrow> tbl_ok (AList.update k w t)"
proof -
  assume ok: "tbl_ok t" and k: "w_p w = k"
  have d: "distinct (map fst (AList.update k w t))"
    using ok by (simp add: tbl_ok_def distinct_update)
  have "w_p w' = k'" if "(k', w') \<in> set (AList.update k w t)" for k' w'
  proof -
    from that d have "map_of (AList.update k w t) k' = Some w'" by simp
    then have "((map_of t)(k \<mapsto> w)) k' = Some w'" by (simp add: update_conv')
    then show ?thesis using ok k by (auto simp: tbl_ok_lookup split: if_splits)
  qed
  with d show ?thesis by (auto simp: tbl_ok_def)
qed

lemma tbl_ok_delete: "tbl_ok t \<Longrightarrow> tbl_ok (AList.delete k t)"
  unfolding tbl_ok_def using distinct_delete [of t k] by (auto simp: AList.delete_eq)

lemma add_mask_p [simp]: "w_p (add_mask m e w) = w_p w"
  by (cases m) (simp_all add: add_mask_def)

lemma add_mask_fi [simp]: "w_fi (add_mask m e w) = w_fi w"
  by (cases m) (simp_all add: add_mask_def)

lemma clear_mask_p [simp]: "w_p (clear_mask m w) = w_p w"
  by (cases m) (simp_all add: clear_mask_def)

lemma clear_mask_fi [simp]: "w_fi (clear_mask m w) = w_fi w"
  by (cases m) (simp_all add: clear_mask_def)

lemma singlewatch_absent:
  "map_of t p = None \<Longrightarrow>
   singlewatch env p e m fi t =
     (case tNewWatched env p fi of
        Some err \<Rightarrow> (Some err, t)
      | None \<Rightarrow>
          (let w = add_mask m e \<lparr>w_p = p, w_fi = fi, eDir = 0, eNonDir = 0\<rparr> in
           case tWatch env fi w (encode env (eDir w OR eNonDir w) (IsDir fi)) of
             Some err \<Rightarrow> (Some err, t)
           | None \<Rightarrow> (None, AList.update p w t)))"
  by (simp add: singlewatch_def NewWatched_def Record_def Let_def split: option.splits)

lemma singlewatch_present:
  "map_of t p = Some w0 \<Longrightarrow>
   singlewatch env p e m fi t =
     (case tWatch env fi (add_mask m e w0)
             (encode env (eDir (add_mask m e w0) OR eNonDir (add_mask m e w0)) (IsDir fi)) of
        Some err \<Rightarrow> Some err
      | None \<Rightarrow> Some errAlreadyWatched,
      AList.update p (add_mask m e w0) t)"
  by (simp add: singlewatch_def Let_def split: option.splits)

lemma singlewatch_other:
  "q \<noteq> p \<Longrightarrow> map_of (snd (singlewatch env p e m fi t)) q = map_of t q"
  by (cases "map_of t p")
     (auto simp: singlewatch_absent singlewatch_present update_conv' Let_def split: option.splits)


lemma singlewatch_keys:
  "fst ` set (snd (singlewatch env p e m fi t)) \<subseteq> insert p (fst ` set t)"
  by (cases "map_of t p")
     (auto simp: singlewatch_absent singlewatch_present Let_def dom_update split: option.splits)

lemma singlewatch_keeps:
  "map_of t q \<noteq> None \<Longrightarrow> map_of (snd (singlewatch env p e m fi t)) q \<noteq> None"
  by (cases "map_of t p")
     (auto simp: singlewatch_absent singlewatch_present update_conv' Let_def split: option.splits)

lemma singleunwatch_absent:
  "map_of t p = None \<Longrightarrow> singleunwatch env p m t = (Some errNotWatched, t)"
  by (simp add: singleunwatch_def)

lemma singleunwatch_present:
  "map_of t p = Some w0 \<Longrightarrow>
   singleunwatch env p m t =
     (let w = clear_mask m w0 in
      case tUnwatch env w of
        Some err \<Rightarrow> (Some err, AList.update p w t)
      | None \<Rightarrow>
          if eNonDir w OR eDir w \<noteq> 0
          then (let w2 = add_mask (if eNonDir w = 0 then ndir else dir) (eNonDir w OR eDir w) w in
                (case tWatch env (w_fi w0) w2 (encode env (eDir w2 OR eNonDir w2) (IsDir (w_fi w0))) of
                   Some err \<Rightarrow> if err \<noteq> errAlreadyWatched then Some err else None
                 | None \<Rightarrow> None,
                 AList.update p w2 t))
          else (None, AList.delete (w_p w0) (AList.update p w t)))"
proof -
  assume a: "map_of t p = Some w0"
  have b: "map_of (AList.update p w t) p = Some w" for w
    by (simp add: update_conv')
  show ?thesis
    unfolding singleunwatch_def a option.case Let_def
    by (simp add: singlewatch_present [OF b] Del_def split: option.splits)
qed

lemma singleunwatch_ok: "tbl_ok t \<Longrightarrow> tbl_ok (snd (singleunwatch env p m t))"
proof (cases "map_of t p")
  case None
  assume "tbl_ok t" with None show ?thesis by (simp add: singleunwatch_absent)
next
  case (Some w0)
  assume ok: "tbl_ok t"
  then have p: "w_p w0 = p" using Some by (rule tbl_ok_lookup)
  show ?thesis
    using ok p
    by (simp add: singleunwatch_present [OF Some] Let_def tbl_ok_update tbl_ok_delete
             split: option.splits)
qed

lemma map_of_None_iff: "map_of t k = None \<longleftrightarrow> k \<notin> fst ` set t"
  by (simp add: map_of_eq_None_iff)

lemma singleunwatch_keys:
  "fst ` set (snd (singleunwatch env p m t)) \<subseteq> fst ` set t"
proof (cases "map_of t p")
  case None
  then show ?thesis by (simp add: singleunwatch_absent)
next
  case (Some w0)
  then have pin: "p \<in> fst ` set t" by (metis map_of_None_iff option.distinct(1))
  have k1: "fst ` set (AList.update p w t) = fst ` set t" for w
    using pin by (auto simp: dom_update)
  have k2: "fst ` set (AList.delete k (AList.update p w t)) \<subseteq> fst ` set t" for w k
    using dom_delete_subset [of k "AList.update p w t"] k1 by simp
  show ?thesis
    by (simp add: singleunwatch_present [OF Some] Let_def k1 k2 split: option.splits)
qed

lemma singleunwatch_other:
  "tbl_ok t \<Longrightarrow> q \<noteq> p \<Longrightarrow> map_of (snd (singleunwatch env p m t)) q = map_of t q"
proof (cases "map_of t p")
  case None
  then show ?thesis by (simp add: singleunwatch_absent)
next
  case (Some w0)
  assume ok: "tbl_ok t" and q: "q \<noteq> p"
  then have p: "w_p w0 = p" using Some by (simp add: tbl_ok_lookup)
  show ?thesis
    using q p
    by (simp add: singleunwatch_present [OF Some] Let_def update_conv' delete_conv'
             split: option.splits)
qed

lemma walk_loop_inv:
  assumes "\<And>fi s. P s \<Longrightarrow> P (snd (fn fi s))" and "P s"
  shows "P (snd (walk_loop fn ls s))"
  using assms(2)
proof (induction ls arbitrary: s)
  case Nil
  then show ?case by simp
next
  case (Cons fi ls)
  have "P (snd (fn fi s))" using Cons.prems by (rule assms(1))
  then show ?case
    using Cons.IH [of "snd (fn fi s)"]
    by (cases "fn fi s") (auto split: option.splits)
qed

lemma walk_inv:
  assumes "\<And>fi s. P s \<Longrightarrow> P (snd (fn fi s))" and "P s"
  shows "P (snd (walk env p fn s))"
  using walk_loop_inv [of P fn s, OF assms]
  by (simp add: walk_def split: sum.splits add: assms(2))

lemma unwatch_child_snd:
  "snd (unwatch_child env p fi t) = snd (singleunwatch env (Join env p (Name fi)) ndir t)"
  by (simp add: unwatch_child_def split: prod.splits)

lemma watch_child_snd:
  "snd (watch_child env p e fi t) = snd (singlewatch env (Join env p (Name fi)) e ndir fi t)"
  by (simp add: watch_child_def split: prod.splits option.splits)

lemma unwatch_cases:
  "unwatch env p fi t =
     (if IsDir fi \<and> fst (walk env p (unwatch_child env p) t) \<noteq> None
      then walk env p (unwatch_child env p) t
      else singleunwatch env p dir
             (if IsDir fi then snd (walk env p (unwatch_child env p) t) else t))"
  by (cases "walk env p (unwatch_child env p) t")
     (auto simp: unwatch_def split: option.splits)

lemma unwatch_walk_keys:
  "fst ` set (snd (walk env p (unwatch_child env p) t)) \<subseteq> fst ` set t"
proof (rule walk_inv [where P = "\<lambda>t'. fst ` set t' \<subseteq> fst ` set t"])
  fix fi and s :: table
  assume "fst ` set s \<subseteq> fst ` set t"
  then show "fst ` set (snd (unwatch_child env p fi s)) \<subseteq> fst ` set t"
    unfolding unwatch_child_snd
    using singleunwatch_keys [of env "Join env p (Name fi)" ndir s] by (rule order_trans [rotated])
qed simp

lemma unwatch_keys: "fst ` set (snd (unwatch env p fi t)) \<subseteq> fst ` set t"
proof -
  let ?t1 = "snd (walk env p (unwatch_child env p) t)"
  have "fst ` set (snd (singleunwatch env p dir ?t1)) \<subseteq> fst ` set t"
    using singleunwatch_keys [of env p dir ?t1] unwatch_walk_keys [of env p t]
    by (rule order_trans)
  then show ?thesis
    by (simp add: unwatch_cases unwatch_walk_keys singleunwatch_keys)
qed

lemma unwatch_walk_absent:
  "map_of t p = None \<Longrightarrow> map_of (snd (walk env q (unwatch_child env q) t)) p = None"
  using unwatch_walk_keys [of env q t] by (auto simp: map_of_None_iff)

lemma cm_add_mask:
  "eDir (add_mask m e w) OR eNonDir (add_mask m e w) = (eDir w OR eNonDir w) OR e"
  by (cases m) (auto simp: add_mask_def bit_eq_iff bit_or_iff)

lemma singlewatch_merged:
  assumes "merged p (m OR e) t"
  shows "merged p (m OR e) (snd (singlewatch env q e md fi t))"
proof (cases "q = p")
  case False
  then show ?thesis using assms singlewatch_other [of p q env e md fi t] by (simp add: merged_def)
next
  case True
  from assms obtain w' where w': "map_of t p = Some w'" "eDir w' OR eNonDir w' = m OR e"
    by (auto simp: merged_def)
  show ?thesis
    using w' True
    by (simp add: singlewatch_present [OF w'(1)] merged_def update_conv' cm_add_mask or.assoc)
qed










lemma Rewatch_snd:
  "Stat env p = Inr fi \<Longrightarrow>
   snd (Rewatch env p old e t) =
     (if fst (unwatch env p fi t) = None then snd (watch env p e fi (snd (unwatch env p fi t)))
      else snd (unwatch env p fi t))"
  by (cases "unwatch env p fi t") (auto simp: Rewatch_def)






lemma rename_step_tbl:
  "fst (rename_step env w e p (t, evn)) =
     (if map_of t p \<noteq> None \<and> prefix (w_p w @ [PathSeparator]) p
      then snd (singleunwatch env p both t) else t)"
  by (simp add: rename_step_def Let_def)

lemma rename_step_ok: "tbl_ok (fst s) \<Longrightarrow> tbl_ok (fst (rename_step env w e p s))"
  by (cases s) (simp add: rename_step_tbl singleunwatch_ok)





lemma process_snd:
  "Watched n t = Inr (w, ge) \<Longrightarrow>
   snd (process env n t) =
     (let e = decode env ge (eDir w OR eNonDir w); t1 = refresh env w ge t in
      if e = 0 \<and> (\<not> IsDir (w_fi w) \<or> ge AND ucast (n2n env (Write env)) = 0) then t1
      else (let t2 = (if IsDir (w_fi w) then snd (dir_fn env w n e (ucast ge) t1) else t1) in
            if (ucast ge :: Event) AND (n2n env (Remove env) OR n2n env (Rename env)) \<noteq> 0
            then Del w t2 else t2))"
  by (simp add: process_def Let_def split: prod.splits)















lemma monitor_locked_tbl: "monitor env True ws t out = (fst (monitor env True ws t out), t, out)"
  by (induction env "True" ws t out rule: monitor.induct) simp_all

section \<open>Facts about decode and the events of dir\<close>













lemma process_fst:
  "Watched n t = Inr (w, ge) \<Longrightarrow>
   fst (process env n t) =
     (let e = decode env ge (eDir w OR eNonDir w); t1 = refresh env w ge t in
      if e = 0 \<and> (\<not> IsDir (w_fi w) \<or> ge AND ucast (n2n env (Write env)) = 0) then []
      else if IsDir (w_fi w) then fst (dir_fn env w n e (ucast ge) t1) else file_fn w n e)"
  by (simp add: process_def Let_def split: prod.splits)

lemma flag32_64: "(ucast (ge :: native) :: Event) AND x \<noteq> 0 \<longleftrightarrow> ge AND ucast x \<noteq> 0"
proof -
  have len: "i < 32" if "bit x i" for i
    using bit_imp_le_length [OF that] by simp
  have len': "i < 64" if "bit ge i" for i
    using bit_imp_le_length [OF that] by simp
  have L: "(\<exists>i<32. bit (ucast ge AND x) i) = (\<exists>i. bit ge i \<and> bit x i)"
    using len by (auto simp: bit_and_iff bit_ucast_iff)
  have R: "(\<exists>i<64. bit (ge AND (ucast x :: native)) i) = (\<exists>i. bit ge i \<and> bit x i)"
    using len' by (auto simp: bit_and_iff bit_ucast_iff)
  show ?thesis by (simp add: bit_eq_iff L R)
qed

lemma or_and_nz2: "(a :: Event) AND x \<noteq> 0 \<Longrightarrow> a AND (y OR x) \<noteq> 0"
  by (auto simp: bit_eq_iff bit_and_iff bit_or_iff)

lemma or_and_nz3: "(a :: Event) AND x \<noteq> 0 \<Longrightarrow> a AND (x OR y) \<noteq> 0"
  by (auto simp: bit_eq_iff bit_and_iff bit_or_iff)

lemma refresh_skipped:
  "(ucast ge :: Event) AND n2n env (Rename env) \<noteq> 0 \<Longrightarrow> refresh env w ge t = t"
  using or_and_nz2 [of "ucast ge" "n2n env (Rename env)" "n2n env (Remove env)"]
  by (simp add: refresh_def flag32_64)

lemma singleunwatch_both:
  assumes "tbl_ok s"
  shows "map_of (snd (singleunwatch env k both s)) q = (if q = k then unreg env s k else map_of s q)"
proof (cases "map_of s k")
  case None
  then show ?thesis by (simp add: singleunwatch_absent unreg_def)
next
  case (Some w0)
  have p: "w_p w0 = k" using assms Some by (rule tbl_ok_lookup)
  show ?thesis
    using p Some
    by (simp add: singleunwatch_present [OF Some] Let_def clear_mask_def unreg_def update_conv'
          delete_conv' split: option.splits)
qed

lemma rename_step_fst:
  "tbl_ok s \<Longrightarrow>
   map_of (fst (rename_step env w e k (s, evn))) q =
     (if q = k \<and> is_desc w q then unreg env s q else map_of s q)"
  by (auto simp: rename_step_tbl singleunwatch_both is_desc_def unreg_def)

lemma rename_step_snd:
  "snd (rename_step env w e k (s, evn)) =
     evn @ (if rename_gate env w \<and> map_of s k \<noteq> None \<and> is_desc w k
            then [rename_event env w e k] else [])"
  by (simp add: rename_step_def Let_def rename_gate_def rename_event_def is_desc_def)

lemma rename_fold:
  assumes "tbl_ok s" and "distinct ks"
  shows "(\<forall>q. map_of (fst (fold (rename_step env w e) ks (s, evn))) q =
            (if q \<in> set ks \<and> is_desc w q then unreg env s q else map_of s q)) \<and>
         snd (fold (rename_step env w e) ks (s, evn)) =
            evn @ (if rename_gate env w
                   then map (rename_event env w e) (filter (\<lambda>p. map_of s p \<noteq> None \<and> is_desc w p) ks)
                   else [])"
  using assms
proof (induction ks arbitrary: s evn)
  case Nil
  then show ?case by simp
next
  case (Cons k ks)
  obtain s1 evn1 where st: "rename_step env w e k (s, evn) = (s1, evn1)"
    by (cases "rename_step env w e k (s, evn)")
  have ok1: "tbl_ok s1"
    using rename_step_ok [of "(s, evn)" env w e k] Cons.prems(1) st by simp
  have m1: "map_of s1 q = (if q = k \<and> is_desc w q then unreg env s q else map_of s q)" for q
    using rename_step_fst [OF Cons.prems(1), of env w e k evn q] st by simp
  have e1: "evn1 = evn @ (if rename_gate env w \<and> map_of s k \<noteq> None \<and> is_desc w k
            then [rename_event env w e k] else [])"
    using rename_step_snd [of env w e k s evn] st by simp
  have k: "k \<notin> set ks" "distinct ks" using Cons.prems(2) by simp_all
  have same: "map_of s1 p = map_of s p" if "p \<in> set ks" for p
    using that k(1) by (auto simp: m1)
  have u: "unreg env s1 p = unreg env s p" if "p \<in> set ks" for p
    using same [OF that] by (simp add: unreg_def)
  have f: "filter (\<lambda>p. map_of s1 p \<noteq> None \<and> is_desc w p) ks =
           filter (\<lambda>p. map_of s p \<noteq> None \<and> is_desc w p) ks"
    by (rule filter_cong) (simp_all add: same)
  have un: "unreg env s k = None" if "map_of s k = None"
    using that by (simp add: unreg_def)
  note IH = Cons.IH [OF ok1 k(2), of evn1]
  have A: "map_of (fst (fold (rename_step env w e) (k # ks) (s, evn))) q =
            (if q \<in> set (k # ks) \<and> is_desc w q then unreg env s q else map_of s q)" for q
    using IH u [of q] k(1) by (auto simp: st m1)
  have B: "snd (fold (rename_step env w e) (k # ks) (s, evn)) =
            evn @ (if rename_gate env w
                   then map (rename_event env w e) (filter (\<lambda>p. map_of s p \<noteq> None \<and> is_desc w p) (k # ks))
                   else [])"
    using IH [unfolded f] by (simp add: st e1 del: not_None_eq)
  show ?case using A B by blast
qed

lemma not_self_desc: "\<not> is_desc w (w_p w)"
  by (simp add: is_desc_def prefix_def)

lemma process_rescan:
  assumes "Watched n t = Inr (w, ge)" and "IsDir (w_fi w)"
    and "(ucast ge :: Event) AND (n2n env (Rename env) OR n2n env (Remove env)) = 0"
    and "(ucast ge :: Event) AND n2n env (Write env) \<noteq> 0"
  shows "process env n t =
           (snd (snd (walk env (w_p w) (rescan_child env w n) (refresh env w ge t, []))),
            fst (snd (walk env (w_p w) (rescan_child env w n) (refresh env w ge t, []))))"
proof -
  have w64: "ge AND ucast (n2n env (Write env)) \<noteq> 0"
    using assms(4) by (simp add: flag32_64)
  have nr: "(ucast ge :: Event) AND (n2n env (Remove env) OR n2n env (Rename env)) = 0"
    using assms(3) by (simp add: or.commute)
  show ?thesis
    using assms(2,3,4) w64 nr
    by (simp add: process_def assms(1) Let_def dir_fn_def split: prod.splits)
qed

section \<open>Facts about the walks, the teardown and the rescan\<close>

lemma walk_loop_all_ok:
  assumes "\<And>x s. x \<in> set ls \<Longrightarrow> P s \<Longrightarrow> fst (fn x s) = None \<and> P (snd (fn x s))" and "P s"
  shows "fst (walk_loop fn ls s) = None \<and> P (snd (walk_loop fn ls s))"
  using assms
proof (induction ls arbitrary: s)
  case Nil
  then show ?case by simp
next
  case (Cons x ls)
  have 1: "fst (fn x s) = None" "P (snd (fn x s))" using Cons.prems by simp_all
  have "fst (walk_loop fn ls (snd (fn x s))) = None \<and> P (snd (walk_loop fn ls (snd (fn x s))))"
    by (rule Cons.IH) (simp_all add: Cons.prems(1) 1)
  then show ?case using 1 by (cases "fn x s") simp
qed

lemma walk_loop_first_error:
  assumes "\<And>x s. x \<in> set ls1 \<Longrightarrow> P s \<Longrightarrow> fst (fn x s) = None \<and> P (snd (fn x s))"
    and "\<And>s. P s \<Longrightarrow> fst (fn y s) = Some err" and "P s"
  shows "fst (walk_loop fn (ls1 @ y # ls2) s) = Some err"
  using assms
proof (induction ls1 arbitrary: s)
  case Nil
  have "fst (fn y s) = Some err" using Nil(2,3) by simp
  then show ?case by (cases "fn y s") simp
next
  case (Cons x ls1)
  have 1: "fst (fn x s) = None" "P (snd (fn x s))" using Cons.prems(1,3) by simp_all
  have "fst (walk_loop fn (ls1 @ y # ls2) (snd (fn x s))) = Some err"
    by (rule Cons.IH) (simp_all add: Cons.prems 1)
  then show ?case using 1 by (cases "fn x s") simp
qed

lemma walk_loop_unchanged_prefix:
  assumes "\<And>x. x \<in> set ls1 \<Longrightarrow> fn x s = (None, s)"
  shows "walk_loop fn (ls1 @ ls2) s = walk_loop fn ls2 s"
  using assms by (induction ls1) simp_all

lemma singlewatch_fst:
  "fst (singlewatch env c e m fi s) = Some errAlreadyWatched \<or>
   fst (singlewatch env c e m fi s) = tNewWatched env c fi \<or>
   (\<exists>w k. fst (singlewatch env c e m fi s) = tWatch env fi w k)"
proof (cases "map_of s c")
  case None
  let ?w = "add_mask m e \<lparr>w_p = c, w_fi = fi, eDir = 0, eNonDir = 0\<rparr>"
  have "fst (singlewatch env c e m fi s) = tNewWatched env c fi \<or>
        fst (singlewatch env c e m fi s) =
          tWatch env fi ?w (encode env (eDir ?w OR eNonDir ?w) (IsDir fi))"
    by (simp add: singlewatch_absent [OF None] Let_def split: option.splits)
  then show ?thesis by blast
next
  case (Some w0)
  let ?w = "add_mask m e w0"
  have "fst (singlewatch env c e m fi s) = Some errAlreadyWatched \<or>
        fst (singlewatch env c e m fi s) =
          tWatch env fi ?w (encode env (eDir ?w OR eNonDir ?w) (IsDir fi))"
    by (simp add: singlewatch_present [OF Some] split: option.splits)
  then show ?thesis by blast
qed

lemma singlewatch_fst_refused:
  assumes "\<forall>w k. tWatch env fi w k = Some err"
    and "tNewWatched env c fi = None \<or> tNewWatched env c fi = Some err"
  shows "fst (singlewatch env c e m fi s) = Some err"
  using assms
  by (cases "map_of s c")
     (auto simp: singlewatch_absent singlewatch_present Let_def split: option.splits)

lemma watch_child_ok:
  assumes "entry_ok env p x"
  shows "fst (watch_child env p e x s) = None"
proof -
  let ?r = "fst (singlewatch env (Join env p (Name x)) e ndir x s)"
  have "acceptable ?r"
    using singlewatch_fst [of env "Join env p (Name x)" e ndir x s] assms
    unfolding entry_ok_def by (metis acceptable_def)
  then show ?thesis
    by (cases "singlewatch env (Join env p (Name x)) e ndir x s")
       (auto simp: watch_child_def acceptable_def)
qed

lemma watch_child_refused:
  assumes "entry_refused env p x err"
  shows "fst (watch_child env p e x s) = Some err"
proof -
  have "fst (singlewatch env (Join env p (Name x)) e ndir x s) = Some err"
    using assms by (intro singlewatch_fst_refused) (simp_all add: entry_refused_def)
  then show ?thesis
    using assms
    by (cases "singlewatch env (Join env p (Name x)) e ndir x s")
       (auto simp: watch_child_def entry_refused_def)
qed

lemma watch_child_new_refused:
  "map_of s (Join env p (Name x)) = None \<Longrightarrow> tNewWatched env (Join env p (Name x)) x = Some err \<Longrightarrow>
   err \<noteq> errAlreadyWatched \<Longrightarrow> fst (watch_child env p e x s) = Some err"
  by (simp add: watch_child_def singlewatch_absent)

lemma watch_child_other:
  "Join env p (Name x) \<noteq> c \<Longrightarrow> map_of (snd (watch_child env p e x s)) c = map_of s c"
  by (simp add: watch_child_snd singlewatch_other)

lemma walk_Inr: "Readdir env p = Inr ls \<Longrightarrow> walk env p fn s = walk_loop fn ls s"
  by (simp add: walk_def)

lemma walk_Inl: "Readdir env p = Inl err \<Longrightarrow> walk env p fn s = (Some err, s)"
  by (simp add: walk_def)

lemma singleunwatch_native_ok:
  assumes "\<forall>w. tUnwatch env w = None" and "\<forall>fi w m. acceptable (tWatch env fi w m)"
  shows "fst (singleunwatch env q m t) = (if map_of t q = None then Some errNotWatched else None)"
proof (cases "map_of t q")
  case None
  then show ?thesis by (simp add: singleunwatch_absent)
next
  case (Some w0)
  have "acceptable (tWatch env fi w m)" for fi w m using assms(2) by simp
  then have a: "tWatch env fi w m = Some err \<Longrightarrow> err = errAlreadyWatched" for fi w m err
    by (metis acceptable_def option.distinct(1) option.inject)
  show ?thesis
    using assms(1) a Some
    by (auto simp: singleunwatch_present [OF Some] Let_def split: option.splits)
qed

lemma unwatch_child_native_ok:
  assumes "\<forall>w. tUnwatch env w = None" and "\<forall>fi w m. acceptable (tWatch env fi w m)"
  shows "fst (unwatch_child env p x s) = None"
  using singleunwatch_native_ok [OF assms, of "Join env p (Name x)" ndir s]
  by (cases "singleunwatch env (Join env p (Name x)) ndir s")
     (auto simp: unwatch_child_def split: if_splits)

lemma unwatch_child_absent:
  "map_of s (Join env p (Name x)) = None \<Longrightarrow> unwatch_child env p x s = (None, s)"
  by (simp add: unwatch_child_def singleunwatch_absent)

lemma unwatch_child_fails:
  assumes "map_of s (Join env p (Name y)) = Some w0"
    and "tUnwatch env (clear_mask ndir w0) = Some err" and "err \<noteq> errNotWatched"
  shows "unwatch_child env p y s =
           (Some err, AList.update (Join env p (Name y)) (clear_mask ndir w0) s)"
  using assms(2,3) by (simp add: unwatch_child_def singleunwatch_present [OF assms(1)])
























lemma fresh_entries_cong:
  "set a = set b \<Longrightarrow> fresh_entries cp a ls = fresh_entries cp b ls"
proof (induction ls arbitrary: a b)
  case Nil
  show ?case by simp
next
  case (Cons fi ls)
  have "set (cp fi # a) = set (cp fi # b)" using Cons.prems by simp
  then have "fresh_entries cp (cp fi # a) ls = fresh_entries cp (cp fi # b) ls" by (rule Cons.IH)
  then show ?case using Cons.IH [OF Cons.prems] Cons.prems by simp
qed

lemma fresh_entries_seen:
  "cp ` set ls \<subseteq> set seen \<Longrightarrow> fresh_entries cp seen ls = []"
  by (induction ls) simp_all

lemma rescan_child_None: "fst (rescan_child env w n fi s) = None"
  by (cases s) (simp add: rescan_child_def Let_def split: prod.splits)

lemma walk_loop_fold:
  assumes "\<And>fi s. fst (fn fi s) = None"
  shows "walk_loop fn ls s = (None, fold (\<lambda>fi s. snd (fn fi s)) ls s)"
proof (induction ls arbitrary: s)
  case Nil
  show ?case by simp
next
  case (Cons fi ls)
  obtain s' where "fn fi s = (None, s')" using assms [of fi s] by (cases "fn fi s") simp
  then show ?case using Cons [of s'] by simp
qed

lemma rescan_child_new:
  assumes "map_of t p = None" and "p = Join env (w_p w) (Name fi)"
    and "tNewWatched env p fi = None"
    and "tWatch env fi \<lparr>w_p = p, w_fi = fi, eDir = 0, eNonDir = eDir w\<rparr>
            (encode env (eDir w) (IsDir fi)) = None"
    and "eDir w AND Create env \<noteq> 0"
  shows "rescan_child env w n fi (t, evn) =
           (None, AList.update p \<lparr>w_p = p, w_fi = fi, eDir = 0, eNonDir = eDir w\<rparr> t,
            evn @ [create_event env p fi n])"
proof -
  have sw: "singlewatch env p (eDir w) ndir fi t =
              (None, AList.update p \<lparr>w_p = p, w_fi = fi, eDir = 0, eNonDir = eDir w\<rparr> t)"
    using assms(1,3,4) by (simp add: singlewatch_absent add_mask_def)
  show ?thesis
    using sw assms(5)
    by (simp add: rescan_child_def assms(2) [symmetric] IsNotExist_def create_event_def)
qed

lemma rescan_child_refused:
  assumes "map_of t p = None" and "p = Join env (w_p w) (Name fi)"
    and "tNewWatched env p fi = Some err \<or>
         tNewWatched env p fi = None \<and>
         tWatch env fi \<lparr>w_p = p, w_fi = fi, eDir = 0, eNonDir = eDir w\<rparr>
            (encode env (eDir w) (IsDir fi)) = Some err"
  shows "rescan_child env w n fi (t, evn) =
           (None, t,
            if err = ENOENT \<and> eDir w AND Remove env \<noteq> 0
            then evn @ [remove_event env p fi n] else evn)"
proof -
  have sw: "singlewatch env p (eDir w) ndir fi t = (Some err, t)"
    using assms(1,3) by (auto simp: singlewatch_absent add_mask_def)
  show ?thesis
    using sw by (simp add: rescan_child_def assms(2) [symmetric] IsNotExist_def remove_event_def)
qed

lemma rescan_child_present:
  assumes "map_of t p = Some w0" and "p = Join env (w_p w) (Name fi)"
  shows "rescan_child env w n fi (t, evn) =
           (None, AList.update p (add_mask ndir (eDir w) w0) t,
            if tWatch env fi (add_mask ndir (eDir w) w0)
                 (encode env (eDir (add_mask ndir (eDir w) w0) OR eNonDir (add_mask ndir (eDir w) w0))
                    (IsDir fi)) = Some ENOENT \<and> eDir w AND Remove env \<noteq> 0
            then evn @ [remove_event env p fi n] else evn)"
  by (auto simp: rescan_child_def assms(2) [symmetric] singlewatch_present [OF assms(1)]
        IsNotExist_def remove_event_def split: option.splits)

lemma process_rescan_walk:
  assumes "map_of t (n_path n) = Some w" and "rescans env n w"
  shows "process env n t =
           (snd (snd (walk env (w_p w) (rescan_child env w n) (refresh env w (n_flags n) t, []))),
            fst (snd (walk env (w_p w) (rescan_child env w n) (refresh env w (n_flags n) t, []))))"
proof (rule process_rescan)
  show "Watched n t = Inr (w, n_flags n)" using assms(1) by (simp add: Watched_def)
qed (use assms(2) in \<open>simp_all add: rescans_def\<close>)

lemma process_rescan_fold:
  assumes "map_of t (n_path n) = Some w" and "rescans env n w"
    and "Readdir env (w_p w) = Inr ls"
  shows "process env n t =
           (snd (fold (\<lambda>fi s. snd (rescan_child env w n fi s)) ls (refresh env w (n_flags n) t, [])),
            fst (fold (\<lambda>fi s. snd (rescan_child env w n fi s)) ls (refresh env w (n_flags n) t, [])))"
  using walk_loop_fold [of "rescan_child env w n" ls, OF rescan_child_None]
  by (simp add: process_rescan_walk [OF assms(1,2)] walk_def assms(3))

lemma process_rescan_unreadable:
  assumes "map_of t (n_path n) = Some w" and "rescans env n w"
    and "Readdir env (w_p w) = Inl err"
  shows "process env n t = ([], refresh env w (n_flags n) t)"
  by (simp add: process_rescan_walk [OF assms(1,2)] walk_def assms(3))

lemma rescan_fold_all_ok:
  assumes nw: "\<forall>p fi. tNewWatched env p fi = None" and tw: "\<forall>fi w m. tWatch env fi w m = None"
    and cr: "eDir w AND Create env \<noteq> 0"
  shows "snd (fold (\<lambda>fi s. snd (rescan_child env w n fi s)) ls (t, evn)) =
           evn @ map (\<lambda>fi. create_event env (Join env (w_p w) (Name fi)) fi n)
                   (fresh_entries (\<lambda>fi. Join env (w_p w) (Name fi)) (map fst t) ls) \<and>
         fst ` set (fst (fold (\<lambda>fi s. snd (rescan_child env w n fi s)) ls (t, evn))) =
           fst ` set t \<union> (\<lambda>fi. Join env (w_p w) (Name fi)) ` set ls \<and>
         (\<forall>q w0. map_of t q = Some w0 \<longrightarrow>
            (\<exists>w1. map_of (fst (fold (\<lambda>fi s. snd (rescan_child env w n fi s)) ls (t, evn))) q = Some w1 \<and>
                  w_p w1 = w_p w0 \<and> w_fi w1 = w_fi w0 \<and> eDir w1 = eDir w0))"
proof (induction ls arbitrary: t evn)
  case Nil
  show ?case by simp
next
  case (Cons fi ls)
  let ?cp = "\<lambda>fi. Join env (w_p w) (Name fi)"
  let ?p = "?cp fi"
  let ?F = "fold (\<lambda>fi s. snd (rescan_child env w n fi s)) ls"
  show ?case
  proof (cases "map_of t ?p")
    case None
    let ?r = "\<lparr>w_p = ?p, w_fi = fi, eDir = 0, eNonDir = eDir w\<rparr>"
    let ?t1 = "AList.update ?p ?r t"
    have st: "rescan_child env w n fi (t, evn) = (None, ?t1, evn @ [create_event env ?p fi n])"
      using None refl _ _ cr by (rule rescan_child_new) (simp_all add: nw tw)
    have nk: "?p \<notin> set (map fst t)" using None by (simp add: map_of_None_iff)
    have ks: "set (map fst ?t1) = set (?p # map fst t)" by (auto simp: dom_update)
    note IH = Cons.IH [of ?t1 "evn @ [create_event env ?p fi n]"]
    have 1: "snd (?F (?t1, evn @ [create_event env ?p fi n])) =
               evn @ map (\<lambda>fi. create_event env (?cp fi) fi n)
                       (fresh_entries ?cp (map fst t) (fi # ls))"
      using IH nk fresh_entries_cong [OF ks, of ?cp ls] by simp
    have 2: "fst ` set (fst (?F (?t1, evn @ [create_event env ?p fi n]))) =
               fst ` set t \<union> ?cp ` set (fi # ls)"
      using IH ks by auto
    have 3: "\<exists>w1. map_of (fst (?F (?t1, evn @ [create_event env ?p fi n]))) q = Some w1 \<and>
                  w_p w1 = w_p w0 \<and> w_fi w1 = w_fi w0 \<and> eDir w1 = eDir w0"
      if "map_of t q = Some w0" for q w0
    proof -
      have "q \<noteq> ?p" using that None by auto
      then have "map_of ?t1 q = Some w0" using that by (simp add: update_conv')
      then show ?thesis using IH by blast
    qed
    show ?thesis using 1 2 3 by (simp add: st)
  next
    case (Some w0)
    let ?t1 = "AList.update ?p (add_mask ndir (eDir w) w0) t"
    have st: "rescan_child env w n fi (t, evn) = (None, ?t1, evn)"
      using rescan_child_present [OF Some refl, of n evn] by (simp add: tw)
    have k: "?p \<in> set (map fst t)" using Some by (metis map_of_None_iff option.distinct(1) set_map)
    have ks: "set (map fst ?t1) = set (map fst t)" using k by (auto simp: dom_update)
    note IH = Cons.IH [of ?t1 evn]
    have 1: "snd (?F (?t1, evn)) =
               evn @ map (\<lambda>fi. create_event env (?cp fi) fi n)
                       (fresh_entries ?cp (map fst t) (fi # ls))"
      using IH k fresh_entries_cong [OF ks, of ?cp ls] by simp
    have 2: "fst ` set (fst (?F (?t1, evn))) = fst ` set t \<union> ?cp ` set (fi # ls)"
      using IH ks k by auto
    have 3: "\<exists>w1. map_of (fst (?F (?t1, evn))) q = Some w1 \<and>
                  w_p w1 = w_p w' \<and> w_fi w1 = w_fi w' \<and> eDir w1 = eDir w'"
      if "map_of t q = Some w'" for q w'
    proof (cases "q = ?p")
      case True
      then have "w' = w0" using that Some by simp
      then have "map_of ?t1 q = Some (add_mask ndir (eDir w) w')" using True by (simp add: update_conv')
      then obtain w1 where "map_of (fst (?F (?t1, evn))) q = Some w1 \<and>
          w_p w1 = w_p (add_mask ndir (eDir w) w') \<and> w_fi w1 = w_fi (add_mask ndir (eDir w) w') \<and>
          eDir w1 = eDir (add_mask ndir (eDir w) w')"
        using IH by blast
      then show ?thesis by (auto simp: add_mask_def)
    next
      case False
      then have "map_of ?t1 q = Some w'" using that by (simp add: update_conv')
      then show ?thesis using IH by blast
    qed
    show ?thesis using 1 2 3 by (simp add: st)
  qed
qed

lemma refresh_all_ok: "\<forall>fi w m. tWatch env fi w m = None \<Longrightarrow> refresh env w ge t = t"
  by (simp add: refresh_def split: sum.splits)

lemma process_rescan_all_ok:
  assumes "map_of t (n_path n) = Some w" and "rescans env n w" and "eDir w AND Create env \<noteq> 0"
    and "Readdir env (w_p w) = Inr ls"
    and nw: "\<forall>p fi. tNewWatched env p fi = None" and tw: "\<forall>fi w m. tWatch env fi w m = None"
  shows "fst (process env n t) =
           map (\<lambda>fi. create_event env (Join env (w_p w) (Name fi)) fi n)
             (fresh_entries (\<lambda>fi. Join env (w_p w) (Name fi)) (map fst t) ls)"
    and "fst ` set (snd (process env n t)) =
           fst ` set t \<union> (\<lambda>fi. Join env (w_p w) (Name fi)) ` set ls"
    and "\<exists>w1. map_of (snd (process env n t)) (n_path n) = Some w1 \<and>
              w_p w1 = w_p w \<and> w_fi w1 = w_fi w \<and> eDir w1 = eDir w"
proof -
  note P = process_rescan_fold [OF assms(1,2,4)]
  note A = rescan_fold_all_ok [OF nw tw assms(3), of n ls t "[]"]
  show "fst (process env n t) =
           map (\<lambda>fi. create_event env (Join env (w_p w) (Name fi)) fi n)
             (fresh_entries (\<lambda>fi. Join env (w_p w) (Name fi)) (map fst t) ls)"
    using A by (simp add: P refresh_all_ok [OF tw])
  show "fst ` set (snd (process env n t)) =
           fst ` set t \<union> (\<lambda>fi. Join env (w_p w) (Name fi)) ` set ls"
    using A by (simp add: P refresh_all_ok [OF tw])
  show "\<exists>w1. map_of (snd (process env n t)) (n_path n) = Some w1 \<and>
              w_p w1 = w_p w \<and> w_fi w1 = w_fi w \<and> eDir w1 = eDir w"
    using A assms(1) by (simp add: P refresh_all_ok [OF tw])
qed

lemma process_rescan_again:
  assumes "map_of t (n_path n) = Some w" and "rescans env n w" and "eDir w AND Create env \<noteq> 0"
    and "Readdir env (w_p w) = Inr ls"
    and nw: "\<forall>p fi. tNewWatched env p fi = None" and tw: "\<forall>fi w m. tWatch env fi w m = None"
    and "n_path n' = n_path n" and "rescans env n' w"
  shows "fst (process env n' (snd (process env n t))) = []"
proof -
  let ?t2 = "snd (process env n t)"
  obtain w1 where m: "map_of ?t2 (n_path n') = Some w1" and
    e: "w_p w1 = w_p w" "w_fi w1 = w_fi w" "eDir w1 = eDir w"
    using process_rescan_all_ok(3) [OF assms(1-6)] assms(7) by auto
  have r: "rescans env n' w1" using assms(8) e by (simp add: rescans_def)
  have c: "eDir w1 AND Create env \<noteq> 0" using assms(3) e by simp
  have l: "Readdir env (w_p w1) = Inr ls" using assms(4) e by simp
  have k: "(\<lambda>fi. Join env (w_p w1) (Name fi)) ` set ls \<subseteq> set (map fst ?t2)"
    using process_rescan_all_ok(2) [OF assms(1-6)] e by auto
  show ?thesis
    using process_rescan_all_ok(1) [OF m r c l nw tw] fresh_entries_seen [OF k] by simp
qed

section \<open>Rewatch\<close>

text \<open>
  C10.  The old mask has no influence on \<^verbatim>\<open>Rewatch\<close>: from the same table, with
  the same path and new mask and the same outcomes of the outside calls, two
  runs that differ only in the old mask return the same error and the same
  table.
\<close>

theorem Rewatch_ignores_old_mask:
  "Rewatch env p old1 e t = Rewatch env p old2 e t"
  by (simp add: Rewatch_def)

text \<open>
  C3, as amended.  When the stat succeeds and the unwatch step of \<^verbatim>\<open>Rewatch\<close>
  fails, \<^verbatim>\<open>Rewatch\<close> aborts: the watch step is not run, and the table is the one
  that the failed unwatch left behind, in which no path has been added.  That
  table need not be the prior one: masks cleared before the failure stay
  cleared.
\<close>

theorem Rewatch_unwatch_failure:
  assumes "Stat env p = Inr fi" and "fst (unwatch env p fi t) = Some err"
  shows "snd (Rewatch env p old e t) = snd (unwatch env p fi t) \<and>
         fst ` set (snd (Rewatch env p old e t)) \<subseteq> fst ` set t"
proof -
  have "snd (Rewatch env p old e t) = snd (unwatch env p fi t)"
    using assms by (simp add: Rewatch_snd)
  then show ?thesis using unwatch_keys [of env p fi t] by simp
qed

theorem Rewatch_unwatch_failure_witness:
  "Stat kq_a_fails ''d'' = Inr \<lparr>Name = ''d'', IsDir = True\<rparr> \<and>
   fst (unwatch kq_a_fails ''d'' \<lparr>Name = ''d'', IsDir = True\<rparr> tbl_da) = Some (EOTHER 5) \<and>
   snd (unwatch kq_a_fails ''d'' \<lparr>Name = ''d'', IsDir = True\<rparr> tbl_da) =
     [(''d'', dir_rec ''d'' 0x500 0), (''d/a'', file_rec ''d/a'' 0 0)] \<and>
   snd (Rewatch kq_a_fails ''d'' 0x500 0x800 tbl_da) =
     [(''d'', dir_rec ''d'' 0x500 0), (''d/a'', file_rec ''d/a'' 0 0)] \<and>
   fst ` set (snd (Rewatch kq_a_fails ''d'' 0x500 0x800 tbl_da)) \<subseteq> fst ` set tbl_da"
proof -
  have h1: "Stat kq_a_fails ''d'' = Inr \<lparr>Name = ''d'', IsDir = True\<rparr>" by code_simp
  have h2: "fst (unwatch kq_a_fails ''d'' \<lparr>Name = ''d'', IsDir = True\<rparr> tbl_da) = Some (EOTHER 5)"
    by code_simp
  have u: "snd (unwatch kq_a_fails ''d'' \<lparr>Name = ''d'', IsDir = True\<rparr> tbl_da) =
             [(''d'', dir_rec ''d'' 0x500 0), (''d/a'', file_rec ''d/a'' 0 0)]"
    by code_simp
  note c = Rewatch_unwatch_failure [OF h1 h2, where old = "0x500" and e = "0x800"]
  have c1: "snd (Rewatch kq_a_fails ''d'' 0x500 0x800 tbl_da) =
              snd (unwatch kq_a_fails ''d'' \<lparr>Name = ''d'', IsDir = True\<rparr> tbl_da)"
    using c by blast
  have c2: "fst ` set (snd (Rewatch kq_a_fails ''d'' 0x500 0x800 tbl_da)) \<subseteq> fst ` set tbl_da"
    using c by blast
  have c3: "snd (Rewatch kq_a_fails ''d'' 0x500 0x800 tbl_da) =
              [(''d'', dir_rec ''d'' 0x500 0), (''d/a'', file_rec ''d/a'' 0 0)]"
    using c1 u by (rule trans)
  show ?thesis using h1 h2 u c3 c2 by blast
qed

text \<open>
  The claim C3 as stated fails: the native unwatch of the file \<open>f\<close> fails after
  \<^verbatim>\<open>singleunwatch\<close> has cleared \<^verbatim>\<open>eDir\<close> through the pointer, and \<^verbatim>\<open>Rewatch\<close> leaves
  a table that differs from the prior one.
\<close>

theorem Rewatch_unwatch_failure_counterexample:
  "Stat kq_unwatch_fails ''f'' = Inr \<lparr>Name = ''f'', IsDir = False\<rparr> \<and>
   fst (unwatch kq_unwatch_fails ''f'' \<lparr>Name = ''f'', IsDir = False\<rparr>
          [(''f'', file_rec ''f'' 0x100 0)]) = Some (EOTHER 5) \<and>
   snd (Rewatch kq_unwatch_fails ''f'' 0x100 0x200
          [(''f'', file_rec ''f'' 0x100 0)]) \<noteq> [(''f'', file_rec ''f'' 0x100 0)]"
  by (simp add: kq_unwatch_fails_def kq_def base_def Rewatch_def unwatch_def singleunwatch_def clear_mask_def file_rec_def)

section \<open>Watch\<close>

text \<open>
  C9.  For a path with no record whose stat succeeds: when the registration of
  the path itself fails, in \<^verbatim>\<open>NewWatched\<close> or in the native \<^verbatim>\<open>Watch\<close>, with an
  error other than the already-watched signal, \<^verbatim>\<open>Watch\<close> returns nil and the
  table is unchanged, so the path still has no record.
\<close>

theorem Watch_registration_failure:
  assumes "map_of t p = None" and "Stat env p = Inr fi"
    and "tNewWatched env p fi = Some err \<or>
         (tNewWatched env p fi = None \<and>
          tWatch env fi \<lparr>w_p = p, w_fi = fi, eDir = e, eNonDir = 0\<rparr>
            (encode env e (IsDir fi)) = Some err)"
    and "err \<noteq> errAlreadyWatched"
  shows "Watch env p e t = (None, t) \<and> map_of (snd (Watch env p e t)) p = None"
  using assms
  by (auto simp: Watch_def watch_def singlewatch_absent add_mask_def Let_def)

theorem Watch_registration_failure_witness:
  "map_of [] ''f'' = (None :: watched option) \<and>
   Stat kq_new_fails ''f'' = Inr \<lparr>Name = ''f'', IsDir = False\<rparr> \<and>
   tNewWatched kq_new_fails ''f'' \<lparr>Name = ''f'', IsDir = False\<rparr>
     = Some (EOTHER 13) \<and>
   EOTHER 13 \<noteq> errAlreadyWatched \<and>
   Watch kq_new_fails ''f'' 0x100 [] = (None, [])"
  using Watch_registration_failure [of "[]" "''f''" kq_new_fails
      "\<lparr>Name = ''f'', IsDir = False\<rparr>" "EOTHER 13" "0x100"]
  by (simp add: kq_new_fails_def kq_def base_def)

text \<open>
  C4, as amended.  For a path that has a record and whose stat succeeds,
  \<^verbatim>\<open>Watch\<close> leaves a record at the path whose combined mask is the previous one
  or-ed with the requested mask, whatever else happens.  The already-watched
  signal of the path itself is not surfaced: \<^verbatim>\<open>Watch\<close> returns nil when the path
  is not a directory, and when the native registration of the path gives
  anything but nil or that signal.  Otherwise, for a directory, \<^verbatim>\<open>Watch\<close> returns
  the result of the walk over the directory's entries: the error of reading the
  directory when it cannot be read; nil when the registration of every entry
  succeeds or gives the already-watched signal, as for entries that were
  expanded before; and the error of the first entry whose registration is
  refused with another error.
\<close>

theorem Watch_again_merges:
  fixes env p e w fi
  defines "w1 \<equiv> add_mask dir e w"
  defines "r \<equiv> tWatch env fi (add_mask dir e w)
                  (encode env (eDir (add_mask dir e w) OR eNonDir (add_mask dir e w)) (IsDir fi))"
  assumes "map_of t p = Some w" and "Stat env p = Inr fi"
  shows "(\<exists>w'. map_of (snd (Watch env p e t)) p = Some w' \<and>
               eDir w' OR eNonDir w' = (eDir w OR eNonDir w) OR e) \<and>
         (\<not> IsDir fi \<longrightarrow> Watch env p e t = (None, AList.update p w1 t)) \<and>
         (\<not> acceptable r \<longrightarrow> Watch env p e t = (None, AList.update p w1 t)) \<and>
         (IsDir fi \<and> acceptable r \<longrightarrow>
            Watch env p e t = walk env p (watch_child env p e) (AList.update p w1 t)) \<and>
         (IsDir fi \<and> acceptable r \<and> Readdir env p = Inl err \<longrightarrow>
            Watch env p e t = (Some err, AList.update p w1 t)) \<and>
         (IsDir fi \<and> acceptable r \<and> Readdir env p = Inr ls \<and> list_all (entry_ok env p) ls \<longrightarrow>
            fst (Watch env p e t) = None) \<and>
         (IsDir fi \<and> acceptable r \<and> Readdir env p = Inr (ls1 @ y # ls2) \<and>
          list_all (entry_ok env p) ls1 \<and> entry_refused env p y err \<longrightarrow>
            fst (Watch env p e t) = Some err) \<and>
         (IsDir fi \<and> acceptable r \<and> Readdir env p = Inr (ls1 @ y # ls2) \<and>
          list_all (\<lambda>x. entry_ok env p x \<and> Join env p (Name x) \<noteq> Join env p (Name y)) ls1 \<and>
          map_of t (Join env p (Name y)) = None \<and>
          tNewWatched env (Join env p (Name y)) y = Some err \<and> err \<noteq> errAlreadyWatched \<longrightarrow>
            fst (Watch env p e t) = Some err)"
proof -
  let ?m = "eDir w OR eNonDir w"
  let ?t1 = "AList.update p w1 t"
  let ?c = "Join env p (Name y)"
  have sw: "singlewatch env p e dir fi t =
              (case r of Some err \<Rightarrow> Some err | None \<Rightarrow> Some errAlreadyWatched, ?t1)"
    by (simp add: singlewatch_present [OF assms(3)] r_def w1_def)
  have W: "Watch env p e t =
           (if \<not> acceptable r then (None, ?t1)
            else if IsDir fi then walk env p (watch_child env p e) ?t1 else (None, ?t1))"
    using assms(4) by (auto simp: Watch_def watch_def sw acceptable_def split: option.splits)
  have m1: "merged p (?m OR e) ?t1"
    by (simp add: merged_def update_conv' cm_add_mask w1_def)
  have m2: "merged p (?m OR e) (snd (walk env p (watch_child env p e) ?t1))"
  proof (rule walk_inv [where P = "merged p (?m OR e)"])
    fix fi' and s :: table
    assume "merged p (?m OR e) s"
    then show "merged p (?m OR e) (snd (watch_child env p e fi' s))"
      unfolding watch_child_snd by (rule singlewatch_merged)
  qed (rule m1)
  have 1: "\<exists>w'. map_of (snd (Watch env p e t)) p = Some w' \<and>
               eDir w' OR eNonDir w' = (eDir w OR eNonDir w) OR e"
    using m1 m2 by (simp add: W merged_def)
  have 5: "fst (Watch env p e t) = None"
    if "IsDir fi \<and> acceptable r \<and> Readdir env p = Inr ls \<and> list_all (entry_ok env p) ls"
  proof -
    have "fst (walk_loop (watch_child env p e) ls ?t1) = None \<and> True"
      by (rule walk_loop_all_ok [where P = "\<lambda>s. True"])
         (use that in \<open>simp_all add: list_all_iff watch_child_ok\<close>)
    then show ?thesis using that by (simp add: W walk_Inr)
  qed
  have 6: "fst (Watch env p e t) = Some err"
    if "IsDir fi \<and> acceptable r \<and> Readdir env p = Inr (ls1 @ y # ls2) \<and>
        list_all (entry_ok env p) ls1 \<and> entry_refused env p y err"
  proof -
    have "fst (walk_loop (watch_child env p e) (ls1 @ y # ls2) ?t1) = Some err"
      by (rule walk_loop_first_error [where P = "\<lambda>s. True"])
         (use that in \<open>simp_all add: list_all_iff watch_child_ok watch_child_refused\<close>)
    then show ?thesis using that by (simp add: W walk_Inr)
  qed
  have 7: "fst (Watch env p e t) = Some err"
    if h: "IsDir fi \<and> acceptable r \<and> Readdir env p = Inr (ls1 @ y # ls2) \<and>
        list_all (\<lambda>x. entry_ok env p x \<and> Join env p (Name x) \<noteq> ?c) ls1 \<and>
        map_of t ?c = None \<and> tNewWatched env ?c y = Some err \<and> err \<noteq> errAlreadyWatched"
  proof -
    have cp: "?c \<noteq> p" using h assms(3) by auto
    have P0: "map_of ?t1 ?c = None" using h cp by (simp add: update_conv')
    have "fst (walk_loop (watch_child env p e) (ls1 @ y # ls2) ?t1) = Some err"
    proof (rule walk_loop_first_error [where P = "\<lambda>s. map_of s ?c = None"])
      fix x and s :: table
      assume "x \<in> set ls1" "map_of s ?c = None"
      then show "fst (watch_child env p e x s) = None \<and> map_of (snd (watch_child env p e x s)) ?c = None"
        using h by (simp add: list_all_iff watch_child_ok watch_child_other)
    next
      fix s :: table
      assume "map_of s ?c = None"
      then show "fst (watch_child env p e y s) = Some err"
        using h by (simp add: watch_child_new_refused)
    qed (rule P0)
    then show ?thesis using h by (simp add: W walk_Inr)
  qed
  show ?thesis
    using 1 5 6 7 by (simp add: W walk_Inl)
qed

theorem Watch_again_merges_witness:
  "map_of tbl_da ''d'' = Some (dir_rec ''d'' 0x500 0) \<and>
   Stat kq_listing ''d'' = Inr \<lparr>Name = ''d'', IsDir = True\<rparr> \<and>
   IsDir \<lparr>Name = ''d'', IsDir = True\<rparr> \<and>
   acceptable (tWatch kq_listing \<lparr>Name = ''d'', IsDir = True\<rparr> (add_mask dir 0x800 (dir_rec ''d'' 0x500 0))
      (encode kq_listing (eDir (add_mask dir 0x800 (dir_rec ''d'' 0x500 0)) OR
                          eNonDir (add_mask dir 0x800 (dir_rec ''d'' 0x500 0)))
         (IsDir \<lparr>Name = ''d'', IsDir = True\<rparr>))) \<and>
   Readdir kq_listing ''d'' = Inr [fi_a] \<and>
   list_all (entry_ok kq_listing ''d'') [fi_a] \<and>
   fst (Watch kq_listing ''d'' 0x800 tbl_da) = None \<and>
   Watch kq_listing ''d'' 0x800 tbl_da =
     (None, [(''d'', dir_rec ''d'' 0xD00 0), (''d/a'', file_rec ''d/a'' 0 0xD00)])"
proof -
  let ?fi = "\<lparr>Name = ''d'', IsDir = True\<rparr>"
  let ?w1 = "add_mask dir 0x800 (dir_rec ''d'' 0x500 0)"
  have h1: "map_of tbl_da ''d'' = Some (dir_rec ''d'' 0x500 0)" by (simp add: tbl_da_def)
  have h2: "Stat kq_listing ''d'' = Inr ?fi" by (simp add: kq_listing_def kq_def base_def)
  have h3: "IsDir ?fi" by simp
  have h4: "acceptable (tWatch kq_listing ?fi ?w1
              (encode kq_listing (eDir ?w1 OR eNonDir ?w1) (IsDir ?fi)))"
    by (simp add: acceptable_def kq_listing_def kq_def)
  have h5: "Readdir kq_listing ''d'' = Inr [fi_a]" by (simp add: kq_listing_def kq_def fi_a_def)
  have h6: "list_all (entry_ok kq_listing ''d'') [fi_a]"
    by (simp add: entry_ok_def acceptable_def kq_listing_def kq_def)
  have ev: "Watch kq_listing ''d'' 0x800 tbl_da =
     (None, [(''d'', dir_rec ''d'' 0xD00 0), (''d/a'', file_rec ''d/a'' 0 0xD00)])"
    by code_simp
  have c: "fst (Watch kq_listing ''d'' 0x800 tbl_da) = None"
    using Watch_again_merges [OF h1 h2, where e = "0x800" and ls = "[fi_a]"] h3 h4 h5 h6
    by blast
  from c ev h1 h2 h3 h4 h5 h6 show ?thesis by blast
qed

text \<open>
  The claim C4 as stated fails: the directory \<open>d\<close> has a record and its stat
  succeeds; when its entry \<open>a\<close> cannot be registered \<^verbatim>\<open>Watch\<close> returns the error of
  that registration, and when the directory cannot be read \<^verbatim>\<open>Watch\<close> returns the
  error of reading it.
\<close>

theorem Watch_again_counterexample:
  "map_of [(''d'', dir_rec ''d'' 0x100 0)] ''d'' = Some (dir_rec ''d'' 0x100 0) \<and>
   Stat kq_child_refused ''d'' = Inr \<lparr>Name = ''d'', IsDir = True\<rparr> \<and>
   fst (Watch kq_child_refused ''d'' 0x800 [(''d'', dir_rec ''d'' 0x100 0)]) = Some (EOTHER 13) \<and>
   Stat kq_unreadable ''d'' = Inr \<lparr>Name = ''d'', IsDir = True\<rparr> \<and>
   fst (Watch kq_unreadable ''d'' 0x800 [(''d'', dir_rec ''d'' 0x100 0)]) = Some (EOTHER 13)"
proof -
  have 1: "map_of [(''d'', dir_rec ''d'' 0x100 0)] ''d'' = Some (dir_rec ''d'' 0x100 0)" by simp
  have 2: "Stat kq_child_refused ''d'' = Inr \<lparr>Name = ''d'', IsDir = True\<rparr>" by code_simp
  have 3: "fst (Watch kq_child_refused ''d'' 0x800 [(''d'', dir_rec ''d'' 0x100 0)]) = Some (EOTHER 13)"
    by code_simp
  have 4: "Stat kq_unreadable ''d'' = Inr \<lparr>Name = ''d'', IsDir = True\<rparr>" by code_simp
  have 5: "fst (Watch kq_unreadable ''d'' 0x800 [(''d'', dir_rec ''d'' 0x100 0)]) = Some (EOTHER 13)"
    by code_simp
  show ?thesis using 1 2 3 4 5 by simp
qed

section \<open>Processing a notification\<close>




text \<open>
  C1, as amended.  When the notification of a watched directory carries the
  native rename flag and is not dropped (the decoded mask is not empty, or the
  write flag is set), \<^verbatim>\<open>process\<close> emits first one event for the directory, with
  the decoded mask without the write bits, and then, in the order of the table,
  one event for every path of the table below the directory if the mask of the
  directory contains Rename or its native companion, and none otherwise: the
  masks of the paths below play no part.  The mask of each of these events is
  the directory's mask intersected with the decoded mask, without the write
  bits.  Afterwards the directory has no record; a path below it has no record
  if its native unwatch succeeded and keeps a record with both masks cleared if
  it failed; every other path is untouched.
\<close>

theorem rename_directory:
  assumes "tbl_ok t" and "map_of t (n_path n) = Some w" and "IsDir (w_fi w)"
    and "ucast (n_flags n) AND n2n env (Rename env) \<noteq> 0"
    and "e = decode env (n_flags n) (eDir w OR eNonDir w)"
    and "e \<noteq> 0 \<or> n_flags n AND ucast (n2n env (Write env)) \<noteq> 0"
  shows "map ev_pe (fst (process env n t)) =
           (w_p w, dir_mask env e) #
           (if rename_gate env w then map (\<lambda>p. (p, rename_mask env w e)) (descendants w t)
            else []) \<and>
         map_of (snd (process env n t)) (n_path n) = None \<and>
         (\<forall>p w0. is_desc w p \<and> map_of t p = Some w0 \<longrightarrow>
            map_of (snd (process env n t)) p =
              (if tUnwatch env (clear_mask both w0) = None then None
               else Some (clear_mask both w0))) \<and>
         (\<forall>q. q \<noteq> n_path n \<and> \<not> is_desc w q \<longrightarrow> map_of (snd (process env n t)) q = map_of t q)"
proof -
  let ?ge = "ucast (n_flags n) :: Event"
  let ?ks = "map fst t"
  let ?d = "dir_event env w e n"
  have W: "Watched n t = Inr (w, n_flags n)" using assms(2) by (simp add: Watched_def)
  have wp: "w_p w = n_path n" using assms(1,2) by (rule tbl_ok_lookup)
  have r: "refresh env w (n_flags n) t = t" using assms(4) by (rule refresh_skipped)
  have g1: "?ge AND (n2n env (Rename env) OR n2n env (Remove env)) \<noteq> 0"
    using assms(4) by (rule or_and_nz3)
  have g2: "?ge AND (n2n env (Remove env) OR n2n env (Rename env)) \<noteq> 0"
    using assms(4) by (rule or_and_nz2)
  have dk: "distinct ?ks" using assms(1) by (simp add: tbl_ok_def)
  note F = rename_fold [OF assms(1) dk, of env w e "[?d]"]
  have pres: "map_of t p \<noteq> None" if "p \<in> set ?ks" for p
    using that by (simp add: map_of_None_iff)
  have flt: "filter (\<lambda>p. map_of t p \<noteq> None \<and> is_desc w p) ?ks = descendants w t"
    unfolding descendants_def by (rule filter_cong) (simp_all add: pres)
  have D: "dir_fn env w n e ?ge t =
             (snd (fold (rename_step env w e) ?ks (t, [?d])),
              Del w (fst (fold (rename_step env w e) ?ks (t, [?d]))))"
    using g1 assms(4) by (simp add: dir_fn_def Let_def dir_event_def)
  have drop: "\<not> (e = 0 \<and> (\<not> IsDir (w_fi w) \<or> n_flags n AND ucast (n2n env (Write env)) = 0))"
    using assms(3,6) by auto
  have P1: "fst (process env n t) = snd (fold (rename_step env w e) ?ks (t, [?d]))"
    using drop assms(3) by (auto simp: process_fst [OF W] Let_def assms(5) [symmetric] r D)
  have P2: "snd (process env n t) = Del w (Del w (fst (fold (rename_step env w e) ?ks (t, [?d]))))"
    using drop assms(3) g2 by (auto simp: process_snd [OF W] Let_def assms(5) [symmetric] r D)
  have M: "map_of (snd (process env n t)) q =
             (if q = n_path n then None
              else if q \<in> set ?ks \<and> is_desc w q then unreg env t q else map_of t q)" for q
    using F by (simp add: P2 Del_def delete_conv' wp)
  have 0: "fst (process env n t) =
           ?d # (if rename_gate env w then map (rename_event env w e) (descendants w t) else [])"
    using F [unfolded flt] by (simp add: P1)
  have 1: "map ev_pe (fst (process env n t)) =
           (w_p w, dir_mask env e) #
           (if rename_gate env w then map (\<lambda>p. (p, rename_mask env w e)) (descendants w t)
            else [])"
    by (simp add: 0 ev_pe_def dir_event_def rename_event_def dir_mask_def rename_mask_def comp_def)
  have 2: "map_of (snd (process env n t)) (n_path n) = None" by (simp add: M)
  have 3: "map_of (snd (process env n t)) p =
              (if tUnwatch env (clear_mask both w0) = None then None else Some (clear_mask both w0))"
    if "is_desc w p \<and> map_of t p = Some w0" for p w0
  proof -
    from that have "p \<noteq> n_path n" using not_self_desc [of w] wp by auto
    moreover from that have "p \<in> set ?ks" by (metis map_of_None_iff option.distinct(1) set_map)
    ultimately show ?thesis using that by (simp add: M unreg_def)
  qed
  have 4: "map_of (snd (process env n t)) q = map_of t q" if "q \<noteq> n_path n \<and> \<not> is_desc w q" for q
    using that by (simp add: M)
  show ?thesis using 1 2 3 4 by blast
qed

theorem rename_directory_witness:
  "tbl_ok tbl_d2 \<and> map_of tbl_d2 (n_path n_rename) = Some (dir_rec ''d'' 0x800 0) \<and>
   IsDir (w_fi (dir_rec ''d'' 0x800 0)) \<and>
   ucast (n_flags n_rename) AND n2n kq (Rename kq) \<noteq> 0 \<and>
   0x800 = decode kq (n_flags n_rename) (eDir (dir_rec ''d'' 0x800 0) OR eNonDir (dir_rec ''d'' 0x800 0)) \<and>
   rename_gate kq (dir_rec ''d'' 0x800 0) \<and> descendants (dir_rec ''d'' 0x800 0) tbl_d2 = [''d/a'', ''d/b''] \<and>
   map ev_pe (fst (process kq n_rename tbl_d2)) =
     [(''d'', 0x800), (''d/a'', 0x800), (''d/b'', 0x800)] \<and>
   map_of (snd (process kq n_rename tbl_d2)) (n_path n_rename) = None \<and>
   snd (process kq n_rename tbl_d2) = []"
proof -
  have h1: "tbl_ok tbl_d2" by (simp add: tbl_ok_def tbl_d2_def dir_rec_def base_def file_rec_def)
  have h2: "map_of tbl_d2 (n_path n_rename) = Some (dir_rec ''d'' 0x800 0)"
    by (simp add: tbl_d2_def n_rename_def)
  have h3: "IsDir (w_fi (dir_rec ''d'' 0x800 0))" by (simp add: dir_rec_def base_def)
  have h4: "ucast (n_flags n_rename) AND n2n kq (Rename kq) \<noteq> 0"
    by (simp add: n_rename_def n2n_def kq_def base_def)
  have h5: "0x800 = decode kq (n_flags n_rename) (eDir (dir_rec ''d'' 0x800 0) OR eNonDir (dir_rec ''d'' 0x800 0))"
    by (simp add: decode_def decode_step_def kq_def base_def n_rename_def dir_rec_def)
  have h6: "(0x800 :: Event) \<noteq> 0 \<or> n_flags n_rename AND ucast (n2n kq (Write kq)) \<noteq> 0" by simp
  have g: "rename_gate kq (dir_rec ''d'' 0x800 0)"
    by (simp add: rename_gate_def dir_rec_def base_def n2n_def kq_def)
  have d: "descendants (dir_rec ''d'' 0x800 0) tbl_d2 = [''d/a'', ''d/b'']"
    by (simp add: descendants_def is_desc_def tbl_d2_def dir_rec_def base_def PathSeparator_def)
  have t: "snd (process kq n_rename tbl_d2) = []" by code_simp
  have m1: "dir_mask kq 0x800 = 0x800"
    by (simp add: dir_mask_def n2n_def kq_def)
  have m2: "rename_mask kq (dir_rec ''d'' 0x800 0) 0x800 = 0x800"
    by (simp add: rename_mask_def dir_rec_def n2n_def kq_def)
  have wp: "w_p (dir_rec ''d'' 0x800 0) = ''d''" by (simp add: dir_rec_def)
  from rename_directory [OF h1 h2 h3 h4 h5 h6] h1 h2 h3 h4 h5 g d t show ?thesis
    by (simp add: m1 m2 wp)
qed

text \<open>
  The claim C1 as stated fails: the file \<open>d/a\<close> requested Create only, neither
  Rename nor its native companion; the directory \<open>d\<close> requested Rename and is
  renamed, and a Rename event is emitted for \<open>d/a\<close>.
\<close>

theorem rename_directory_counterexample:
  "map_of tbl_d1 ''d/a'' = Some (file_rec ''d/a'' 0x100 0) \<and>
   (eDir (file_rec ''d/a'' 0x100 0) OR eNonDir (file_rec ''d/a'' 0x100 0))
      AND (n2n kq (Rename kq) OR Rename kq) = 0 \<and>
   fst (process kq n_rename tbl_d1) =
     [\<lparr>ev_p = ''d'', ev_e = 0x800, ev_isdir = True, ev_sys = Some n_rename\<rparr>,
      \<lparr>ev_p = ''d/a'', ev_e = 0x800, ev_isdir = True, ev_sys = None\<rparr>]"
proof -
  have 1: "map_of tbl_d1 ''d/a'' = Some (file_rec ''d/a'' 0x100 0)" by (simp add: tbl_d1_def)
  have 2: "(eDir (file_rec ''d/a'' 0x100 0) OR eNonDir (file_rec ''d/a'' 0x100 0))
      AND (n2n kq (Rename kq) OR Rename kq) = 0"
    by (simp add: file_rec_def base_def n2n_def kq_def)
  have 3: "fst (process kq n_rename tbl_d1) =
     [\<lparr>ev_p = ''d'', ev_e = 0x800, ev_isdir = True, ev_sys = Some n_rename\<rparr>,
      \<lparr>ev_p = ''d/a'', ev_e = 0x800, ev_isdir = True, ev_sys = None\<rparr>]"
    by code_simp
  show ?thesis using 1 2 3 by simp
qed

section \<open>The rescan of a directory\<close>

text \<open>
  C5, as amended.  A notification of a directory with the write flag, without
  the rename and remove flags, makes \<^verbatim>\<open>process\<close> rescan the directory, after the
  refresh of its registration: nothing happens when the directory cannot be
  read, and otherwise the callback runs on every entry of the listing, in order,
  whatever the earlier entries gave.  With Create requested in the \<^verbatim>\<open>eDir\<close> of the
  directory, an entry whose path has no record and whose registration succeeds
  (\<^verbatim>\<open>NewWatched\<close> and the native \<^verbatim>\<open>Watch\<close>) yields exactly one Create event and is
  entered in the table with the directory's \<^verbatim>\<open>eDir\<close> as its \<^verbatim>\<open>eNonDir\<close>; when its
  registration fails, the table is unchanged and there is no Create event.  An
  entry whose path already has a record yields no Create event: it yields
  nothing, unless its registration fails with the not-exist error and Remove was
  requested, which yields one Remove event.  Hence, when every registration
  succeeds, the events of the rescan are one Create event for each listed path
  that had no record, the table afterwards has the old paths and the listed
  ones, and a later notification of the same directory that rescans it yields
  no event.
\<close>

theorem rescan_events:
  fixes env w n
  defines "cp \<equiv> \<lambda>fi. Join env (w_p w) (Name fi)"
  defines "step \<equiv> \<lambda>fi s. snd (rescan_child env w n fi s)"
  assumes "map_of t (n_path n) = Some w" and "rescans env n w" and "eDir w AND Create env \<noteq> 0"
  shows "(Readdir env (w_p w) = Inl err \<longrightarrow>
            process env n t = ([], refresh env w (n_flags n) t)) \<and>
         (Readdir env (w_p w) = Inr ls \<longrightarrow>
            process env n t =
              (snd (fold step ls (refresh env w (n_flags n) t, [])),
               fst (fold step ls (refresh env w (n_flags n) t, [])))) \<and>
         (map_of s (cp fi) = None \<and> tNewWatched env (cp fi) fi = None \<and>
          tWatch env fi \<lparr>w_p = cp fi, w_fi = fi, eDir = 0, eNonDir = eDir w\<rparr>
            (encode env (eDir w) (IsDir fi)) = None \<longrightarrow>
            step fi (s, evn) =
              (AList.update (cp fi) \<lparr>w_p = cp fi, w_fi = fi, eDir = 0, eNonDir = eDir w\<rparr> s,
               evn @ [create_event env (cp fi) fi n])) \<and>
         (map_of s (cp fi) = None \<and>
          (tNewWatched env (cp fi) fi = Some err \<or>
           tNewWatched env (cp fi) fi = None \<and>
           tWatch env fi \<lparr>w_p = cp fi, w_fi = fi, eDir = 0, eNonDir = eDir w\<rparr>
             (encode env (eDir w) (IsDir fi)) = Some err) \<longrightarrow>
            step fi (s, evn) =
              (s, if err = ENOENT \<and> eDir w AND Remove env \<noteq> 0
                  then evn @ [remove_event env (cp fi) fi n] else evn)) \<and>
         (map_of s (cp fi) = Some w0 \<longrightarrow>
            step fi (s, evn) =
              (AList.update (cp fi) (add_mask ndir (eDir w) w0) s,
               if tWatch env fi (add_mask ndir (eDir w) w0)
                    (encode env (eDir (add_mask ndir (eDir w) w0) OR eNonDir (add_mask ndir (eDir w) w0))
                       (IsDir fi)) = Some ENOENT \<and> eDir w AND Remove env \<noteq> 0
               then evn @ [remove_event env (cp fi) fi n] else evn)) \<and>
         (Readdir env (w_p w) = Inr ls \<and> (\<forall>p fi. tNewWatched env p fi = None) \<and>
          (\<forall>fi w m. tWatch env fi w m = None) \<longrightarrow>
            fst (process env n t) =
              map (\<lambda>fi. create_event env (cp fi) fi n) (fresh_entries cp (map fst t) ls) \<and>
            fst ` set (snd (process env n t)) = fst ` set t \<union> cp ` set ls \<and>
            (\<forall>n'. n_path n' = n_path n \<and> rescans env n' w \<longrightarrow>
               fst (process env n' (snd (process env n t))) = []))"
proof -
  have 1: "process env n t = ([], refresh env w (n_flags n) t)" if "Readdir env (w_p w) = Inl err"
    using assms(3,4) that by (rule process_rescan_unreadable)
  have 2: "process env n t =
              (snd (fold step ls (refresh env w (n_flags n) t, [])),
               fst (fold step ls (refresh env w (n_flags n) t, [])))"
    if "Readdir env (w_p w) = Inr ls"
    unfolding step_def using assms(3,4) that by (rule process_rescan_fold)
  have 3: "step fi (s, evn) =
              (AList.update (cp fi) \<lparr>w_p = cp fi, w_fi = fi, eDir = 0, eNonDir = eDir w\<rparr> s,
               evn @ [create_event env (cp fi) fi n])"
    if "map_of s (cp fi) = None \<and> tNewWatched env (cp fi) fi = None \<and>
          tWatch env fi \<lparr>w_p = cp fi, w_fi = fi, eDir = 0, eNonDir = eDir w\<rparr>
            (encode env (eDir w) (IsDir fi)) = None"
    using rescan_child_new [of s "cp fi" env w fi n evn] that assms(5)
    by (simp add: step_def cp_def)
  have 4: "step fi (s, evn) =
              (s, if err = ENOENT \<and> eDir w AND Remove env \<noteq> 0
                  then evn @ [remove_event env (cp fi) fi n] else evn)"
    if "map_of s (cp fi) = None \<and>
          (tNewWatched env (cp fi) fi = Some err \<or>
           tNewWatched env (cp fi) fi = None \<and>
           tWatch env fi \<lparr>w_p = cp fi, w_fi = fi, eDir = 0, eNonDir = eDir w\<rparr>
             (encode env (eDir w) (IsDir fi)) = Some err)"
    using rescan_child_refused [of s "cp fi" env w fi err n evn] that
    by (simp add: step_def cp_def)
  have 5: "step fi (s, evn) =
              (AList.update (cp fi) (add_mask ndir (eDir w) w0) s,
               if tWatch env fi (add_mask ndir (eDir w) w0)
                    (encode env (eDir (add_mask ndir (eDir w) w0) OR eNonDir (add_mask ndir (eDir w) w0))
                       (IsDir fi)) = Some ENOENT \<and> eDir w AND Remove env \<noteq> 0
               then evn @ [remove_event env (cp fi) fi n] else evn)"
    if "map_of s (cp fi) = Some w0"
    using rescan_child_present [of s "cp fi" w0 env w fi n evn] that
    by (simp add: step_def cp_def)
  have 6: "fst (process env n t) =
              map (\<lambda>fi. create_event env (cp fi) fi n) (fresh_entries cp (map fst t) ls) \<and>
            fst ` set (snd (process env n t)) = fst ` set t \<union> cp ` set ls \<and>
            (\<forall>n'. n_path n' = n_path n \<and> rescans env n' w \<longrightarrow>
               fst (process env n' (snd (process env n t))) = [])"
    if h: "Readdir env (w_p w) = Inr ls \<and> (\<forall>p fi. tNewWatched env p fi = None) \<and>
          (\<forall>fi w m. tWatch env fi w m = None)"
  proof -
    have l: "Readdir env (w_p w) = Inr ls" and nw: "\<forall>p fi. tNewWatched env p fi = None"
      and tw: "\<forall>fi w m. tWatch env fi w m = None" using h by simp_all
    note A = process_rescan_all_ok [OF assms(3,4,5) l nw tw]
    have B: "fst (process env n' (snd (process env n t))) = []"
      if "n_path n' = n_path n \<and> rescans env n' w" for n'
      using process_rescan_again [OF assms(3,4,5) l nw tw, of n'] that by simp
    show ?thesis unfolding cp_def using A(1,2) B by blast
  qed
  show ?thesis using 1 2 3 4 5 6 by blast
qed

theorem rescan_events_witness:
  "map_of tbl_da (n_path n_write) = Some (dir_rec ''d'' 0x500 0) \<and>
   rescans kq_ab n_write (dir_rec ''d'' 0x500 0) \<and>
   eDir (dir_rec ''d'' 0x500 0) AND Create kq_ab \<noteq> 0 \<and>
   Readdir kq_ab (w_p (dir_rec ''d'' 0x500 0)) = Inr [fi_a, fi_b] \<and>
   (\<forall>p fi. tNewWatched kq_ab p fi = None) \<and> (\<forall>fi w m. tWatch kq_ab fi w m = None) \<and>
   n_path n_write = n_path n_write \<and>
   fresh_entries (\<lambda>fi. Join kq_ab (w_p (dir_rec ''d'' 0x500 0)) (Name fi)) (map fst tbl_da)
     [fi_a, fi_b] = [fi_b] \<and>
   fst (process kq_ab n_write tbl_da) = [create_event kq_ab ''d/b'' fi_b n_write] \<and>
   map fst (snd (process kq_ab n_write tbl_da)) = [''d'', ''d/a'', ''d/b''] \<and>
   fst (process kq_ab n_write (snd (process kq_ab n_write tbl_da))) = []"
proof -
  let ?w = "dir_rec ''d'' 0x500 0"
  have h1: "map_of tbl_da (n_path n_write) = Some ?w" by (simp add: tbl_da_def n_write_def)
  have h2: "rescans kq_ab n_write ?w" by code_simp
  have h3: "eDir ?w AND Create kq_ab \<noteq> 0" by code_simp
  have h4: "Readdir kq_ab (w_p ?w) = Inr [fi_a, fi_b]"
    by (simp add: kq_ab_def kq_def fi_a_def fi_b_def)
  have h5: "\<forall>p fi. tNewWatched kq_ab p fi = None" by (simp add: kq_ab_def kq_def)
  have h6: "\<forall>fi w m. tWatch kq_ab fi w m = None" by (simp add: kq_ab_def kq_def)
  have fr: "fresh_entries (\<lambda>fi. Join kq_ab (w_p ?w) (Name fi)) (map fst tbl_da) [fi_a, fi_b] = [fi_b]"
    by code_simp
  have e1: "fst (process kq_ab n_write tbl_da) = [create_event kq_ab ''d/b'' fi_b n_write]"
    by code_simp
  have e2: "map fst (snd (process kq_ab n_write tbl_da)) = [''d'', ''d/a'', ''d/b'']"
    by code_simp
  have e3: "fst (process kq_ab n_write (snd (process kq_ab n_write tbl_da))) = []"
    using rescan_events [OF h1 h2 h3, where ls = "[fi_a, fi_b]"] h2 h4 h5 h6 by blast
  show ?thesis using h1 h2 h3 h4 h5 h6 fr e1 e2 e3 by blast
qed

text \<open>
  The claim C5 as stated fails.  The directory \<open>d\<close> requested Create, the rescan
  lists the entry \<open>a\<close>, which has no record, and its registration is refused: no
  event is emitted and the table is unchanged.  And with Remove requested too,
  an entry that has a record and has gone when it is registered again yields a
  Remove event.
\<close>

theorem rescan_events_counterexample:
  "map_of tbl_d (n_path n_write) = Some (dir_rec ''d'' 0x500 0) \<and>
   rescans kq_child_refused n_write (dir_rec ''d'' 0x500 0) \<and>
   eDir (dir_rec ''d'' 0x500 0) AND Create kq_child_refused \<noteq> 0 \<and>
   Readdir kq_child_refused ''d'' = Inr [fi_a] \<and>
   map_of tbl_d (Join kq_child_refused ''d'' (Name fi_a)) = None \<and>
   process kq_child_refused n_write tbl_d = ([], tbl_d) \<and>
   map_of tbl_rm (n_path n_write) = Some (dir_rec ''d'' 0x700 0) \<and>
   rescans kq_gone n_write (dir_rec ''d'' 0x700 0) \<and>
   eDir (dir_rec ''d'' 0x700 0) AND Create kq_gone \<noteq> 0 \<and>
   Readdir kq_gone ''d'' = Inr [fi_a] \<and>
   map_of tbl_rm (Join kq_gone ''d'' (Name fi_a)) = Some (file_rec ''d/a'' 0 0x700) \<and>
   process kq_gone n_write tbl_rm = ([remove_event kq_gone ''d/a'' fi_a n_write], tbl_rm)"
proof -
  have 1: "map_of tbl_d (n_path n_write) = Some (dir_rec ''d'' 0x500 0)"
    by (simp add: tbl_d_def n_write_def)
  have 2: "rescans kq_child_refused n_write (dir_rec ''d'' 0x500 0)" by code_simp
  have 3: "eDir (dir_rec ''d'' 0x500 0) AND Create kq_child_refused \<noteq> 0" by code_simp
  have 4: "Readdir kq_child_refused ''d'' = Inr [fi_a]"
    by (simp add: kq_child_refused_def kq_def fi_a_def)
  have 5: "map_of tbl_d (Join kq_child_refused ''d'' (Name fi_a)) = None" by code_simp
  have 6: "process kq_child_refused n_write tbl_d = ([], tbl_d)" by code_simp
  have 7: "map_of tbl_rm (n_path n_write) = Some (dir_rec ''d'' 0x700 0)"
    by (simp add: tbl_rm_def n_write_def)
  have 8: "rescans kq_gone n_write (dir_rec ''d'' 0x700 0)" by code_simp
  have 9: "eDir (dir_rec ''d'' 0x700 0) AND Create kq_gone \<noteq> 0" by code_simp
  have 10: "Readdir kq_gone ''d'' = Inr [fi_a]"
    by (simp add: kq_gone_def kq_listing_def kq_def fi_a_def)
  have 11: "map_of tbl_rm (Join kq_gone ''d'' (Name fi_a)) = Some (file_rec ''d/a'' 0 0x700)"
    by code_simp
  have 12: "process kq_gone n_write tbl_rm = ([remove_event kq_gone ''d/a'' fi_a n_write], tbl_rm)"
    by code_simp
  show ?thesis using 1 2 3 4 5 6 7 8 9 10 11 12 by blast
qed

section \<open>Unwatch\<close>

text \<open>
  C7, as amended.  For a path with no record (as after a first successful
  \<^verbatim>\<open>Unwatch\<close>) whose stat succeeds: when the path is not a directory, \<^verbatim>\<open>Unwatch\<close>
  fails with the not-watched condition and leaves the table as it is.  When it
  is a directory, \<^verbatim>\<open>Unwatch\<close> walks over its entries first: if the walk fails,
  \<^verbatim>\<open>Unwatch\<close> returns the error of the walk, and if the walk succeeds, \<^verbatim>\<open>Unwatch\<close>
  fails with the not-watched condition.  The walk fails when the directory
  cannot be read, and when the native unwatch of an entry fails with an error
  other than not-watched; it succeeds when every native call succeeds, and when
  no entry has a record.
\<close>

theorem Unwatch_second_call:
  assumes "map_of t p = None" and "Stat env p = Inr fi"
  shows "(\<not> IsDir fi \<longrightarrow> Unwatch env p t = (Some errNotWatched, t)) \<and>
         (IsDir fi \<and> Readdir env p = Inl err \<longrightarrow> Unwatch env p t = (Some err, t)) \<and>
         (IsDir fi \<and> walk env p (unwatch_child env p) t = (None, t1) \<longrightarrow>
            Unwatch env p t = (Some errNotWatched, t1)) \<and>
         (IsDir fi \<and> walk env p (unwatch_child env p) t = (Some err, t1) \<longrightarrow>
            Unwatch env p t = (Some err, t1)) \<and>
         (IsDir fi \<and> Readdir env p = Inr ls \<and> (\<forall>w. tUnwatch env w = None) \<and>
          (\<forall>fi' w m. acceptable (tWatch env fi' w m)) \<longrightarrow>
            fst (Unwatch env p t) = Some errNotWatched) \<and>
         (IsDir fi \<and> Readdir env p = Inr ls \<and>
          list_all (\<lambda>x. map_of t (Join env p (Name x)) = None) ls \<longrightarrow>
            Unwatch env p t = (Some errNotWatched, t)) \<and>
         (IsDir fi \<and> Readdir env p = Inr (ls1 @ y # ls2) \<and>
          list_all (\<lambda>x. map_of t (Join env p (Name x)) = None) ls1 \<and>
          map_of t (Join env p (Name y)) = Some w0 \<and>
          tUnwatch env (clear_mask ndir w0) = Some err \<and> err \<noteq> errNotWatched \<longrightarrow>
            Unwatch env p t =
              (Some err, AList.update (Join env p (Name y)) (clear_mask ndir w0) t))"
proof -
  let ?W = "walk env p (unwatch_child env p) t"
  have U: "Unwatch env p t = unwatch env p fi t" using assms(2) by (simp add: Unwatch_def)
  have ab: "map_of (snd ?W) p = None" using assms(1) by (rule unwatch_walk_absent)
  have 1: "Unwatch env p t = (Some errNotWatched, t)" if "\<not> IsDir fi"
    using that assms(1) by (simp add: U unwatch_def singleunwatch_absent)
  have 3: "Unwatch env p t = (Some errNotWatched, t')" if "IsDir fi \<and> ?W = (None, t')" for t'
    using that ab by (simp add: U unwatch_def singleunwatch_absent)
  have 4: "Unwatch env p t = (Some err', t')" if "IsDir fi \<and> ?W = (Some err', t')" for t' err'
    using that by (simp add: U unwatch_def)
  have 2: "Unwatch env p t = (Some err, t)" if "IsDir fi \<and> Readdir env p = Inl err"
    using that 4 [of err t] by (simp add: walk_Inl)
  have 5: "fst (Unwatch env p t) = Some errNotWatched"
    if h: "IsDir fi \<and> Readdir env p = Inr ls \<and> (\<forall>w. tUnwatch env w = None) \<and>
           (\<forall>fi' w m. acceptable (tWatch env fi' w m))"
  proof -
    have "fst (walk_loop (unwatch_child env p) ls t) = None \<and> True"
      by (rule walk_loop_all_ok [where P = "\<lambda>s. True"])
         (use h in \<open>simp_all add: unwatch_child_native_ok\<close>)
    then have "fst ?W = None" using h by (simp add: walk_Inr)
    then show ?thesis using 3 [of "snd ?W"] h by (cases ?W) simp
  qed
  have 6: "Unwatch env p t = (Some errNotWatched, t)"
    if h: "IsDir fi \<and> Readdir env p = Inr ls \<and>
           list_all (\<lambda>x. map_of t (Join env p (Name x)) = None) ls"
  proof -
    have "walk_loop (unwatch_child env p) (ls @ []) t = walk_loop (unwatch_child env p) [] t"
      by (rule walk_loop_unchanged_prefix) (use h in \<open>simp add: list_all_iff unwatch_child_absent\<close>)
    then have "?W = (None, t)" using h by (simp add: walk_Inr)
    then show ?thesis using 3 [of t] h by simp
  qed
  have 7: "Unwatch env p t =
              (Some err, AList.update (Join env p (Name y)) (clear_mask ndir w0) t)"
    if h: "IsDir fi \<and> Readdir env p = Inr (ls1 @ y # ls2) \<and>
          list_all (\<lambda>x. map_of t (Join env p (Name x)) = None) ls1 \<and>
          map_of t (Join env p (Name y)) = Some w0 \<and>
          tUnwatch env (clear_mask ndir w0) = Some err \<and> err \<noteq> errNotWatched"
  proof -
    have "walk_loop (unwatch_child env p) (ls1 @ y # ls2) t =
          walk_loop (unwatch_child env p) (y # ls2) t"
      by (rule walk_loop_unchanged_prefix) (use h in \<open>simp add: list_all_iff unwatch_child_absent\<close>)
    then have "?W = (Some err, AList.update (Join env p (Name y)) (clear_mask ndir w0) t)"
      using h by (simp add: walk_Inr unwatch_child_fails)
    then show ?thesis using 4 h by simp
  qed
  show ?thesis using 1 2 3 [of t1] 4 [of err t1] 5 6 7 by blast
qed

theorem Unwatch_second_call_witness:
  "Unwatch kq_listing ''d'' tbl_da = (None, []) \<and>
   map_of (snd (Unwatch kq_listing ''d'' tbl_da)) ''d'' = None \<and>
   Stat kq_listing ''d'' = Inr \<lparr>Name = ''d'', IsDir = True\<rparr> \<and>
   IsDir \<lparr>Name = ''d'', IsDir = True\<rparr> \<and>
   Readdir kq_listing ''d'' = Inr [fi_a] \<and>
   list_all (\<lambda>x. map_of (snd (Unwatch kq_listing ''d'' tbl_da)) (Join kq_listing ''d'' (Name x)) = None)
     [fi_a] \<and>
   Unwatch kq_listing ''d'' (snd (Unwatch kq_listing ''d'' tbl_da)) = (Some errNotWatched, [])"
proof -
  let ?fi = "\<lparr>Name = ''d'', IsDir = True\<rparr>"
  have u: "Unwatch kq_listing ''d'' tbl_da = (None, [])" by code_simp
  have h1: "map_of (snd (Unwatch kq_listing ''d'' tbl_da)) ''d'' = None" by (simp add: u)
  have h2: "Stat kq_listing ''d'' = Inr ?fi" by (simp add: kq_listing_def kq_def base_def)
  have h3: "IsDir ?fi" by simp
  have h4: "Readdir kq_listing ''d'' = Inr [fi_a]" by (simp add: kq_listing_def kq_def fi_a_def)
  have h5: "list_all (\<lambda>x. map_of (snd (Unwatch kq_listing ''d'' tbl_da))
                               (Join kq_listing ''d'' (Name x)) = None) [fi_a]"
    by (simp add: u)
  have c: "Unwatch kq_listing ''d'' (snd (Unwatch kq_listing ''d'' tbl_da)) =
             (Some errNotWatched, snd (Unwatch kq_listing ''d'' tbl_da))"
    using Unwatch_second_call [OF h1 h2, where ls = "[fi_a]"] h3 h4 h5 by blast
  from c u h1 h2 h3 h4 h5 show ?thesis by simp
qed

text \<open>
  The claim C7 as stated fails.  The first \<^verbatim>\<open>Unwatch\<close> of the directory \<open>d\<close>
  succeeds and removes its record; the directory still exists but can no longer
  be read, and the second \<^verbatim>\<open>Unwatch\<close> returns the error of reading it.  And when
  the entry \<open>a\<close>, which is also watched on its own, is still in the table and its
  native unwatch fails, the second \<^verbatim>\<open>Unwatch\<close> returns that error.
\<close>

theorem Unwatch_second_call_counterexample:
  "Unwatch kq ''d'' [(''d'', dir_rec ''d'' 0x100 0)] = (None, []) \<and>
   Stat kq_unreadable ''d'' = Inr \<lparr>Name = ''d'', IsDir = True\<rparr> \<and>
   fst (Unwatch kq_unreadable ''d'' []) = Some (EOTHER 13) \<and>
   fst (Unwatch kq_unreadable ''d'' []) \<noteq> Some errNotWatched \<and>
   fst (Unwatch kq_listing ''d'' tbl_own) = None \<and>
   map_of (snd (Unwatch kq_listing ''d'' tbl_own)) ''d'' = None \<and>
   Stat kq_a_fails ''d'' = Inr \<lparr>Name = ''d'', IsDir = True\<rparr> \<and>
   fst (Unwatch kq_a_fails ''d'' (snd (Unwatch kq_listing ''d'' tbl_own))) = Some (EOTHER 5)"
proof -
  have 1: "Unwatch kq ''d'' [(''d'', dir_rec ''d'' 0x100 0)] = (None, [])" by code_simp
  have 2: "Stat kq_unreadable ''d'' = Inr \<lparr>Name = ''d'', IsDir = True\<rparr>" by code_simp
  have 3: "fst (Unwatch kq_unreadable ''d'' []) = Some (EOTHER 13)" by code_simp
  have 4: "fst (Unwatch kq_listing ''d'' tbl_own) = None" by code_simp
  have 5: "map_of (snd (Unwatch kq_listing ''d'' tbl_own)) ''d'' = None" by code_simp
  have 6: "Stat kq_a_fails ''d'' = Inr \<lparr>Name = ''d'', IsDir = True\<rparr>" by code_simp
  have 7: "fst (Unwatch kq_a_fails ''d'' (snd (Unwatch kq_listing ''d'' tbl_own))) = Some (EOTHER 5)"
    by code_simp
  show ?thesis using 1 2 3 4 5 6 7 by simp
qed

section \<open>The invariant of the table\<close>




section \<open>The teardown of Close\<close>



end
